theory Spec2Isabelle
  imports Main "HOL-Library.AList" "HOL-Library.Multiset"
begin

section \<open>Data model (IPlugin.h, PluginManager.h)\<close>

text \<open>
  The plugin runtime of \<^verbatim>\<open>src/server/game/Plugins\<close>. The enumerations and
  \<^verbatim>\<open>struct PluginInfo\<close> are those of \<^verbatim>\<open>IPlugin.h\<close>.
\<close>

datatype PluginState =
  UNLOADED | LOADING | LOADED | INITIALIZING | INITIALIZED | RUNNING | STOPPING | ERROR

datatype PluginPriority = LOWEST | LOW | NORMAL | HIGH | HIGHEST | CRITICAL

text \<open>The underlying \<^verbatim>\<open>uint8\<close> value of a priority; the comparison of two priorities in
  the sort of \<^verbatim>\<open>GetEventHandlersByPriority\<close> compares these values.\<close>

fun priority_value :: "PluginPriority \<Rightarrow> nat" where
  "priority_value LOWEST = 0"
| "priority_value LOW = 1"
| "priority_value NORMAL = 2"
| "priority_value HIGH = 3"
| "priority_value HIGHEST = 4"
| "priority_value CRITICAL = 5"

record PluginInfo =
  name :: string
  version :: string
  author :: string
  description :: string
  website :: string
  dependencies :: "string list"
  priority :: PluginPriority
  autoLoad :: bool

text \<open>
  \<^verbatim>\<open>class IPlugin\<close> is an interface: its lifecycle methods are pure virtual and written by
  each plugin. The model takes them as a table of functions over the plugin's own data
  \<open>'p\<close>; a method that mutates the instance returns the new instance. \<open>'h\<close> is the type of
  \<^verbatim>\<open>IEventHandler*\<close> values.
\<close>

record ('p, 'h) IPlugin =
  Load :: "'p \<Rightarrow> bool \<times> 'p"
  Initialize :: "'p \<Rightarrow> bool \<times> 'p"
  Start :: "'p \<Rightarrow> 'p"
  Stop :: "'p \<Rightarrow> 'p"
  Unload :: "'p \<Rightarrow> 'p"
  GetInfo :: "'p \<Rightarrow> PluginInfo"
  GetState :: "'p \<Rightarrow> PluginState"
  GetEventHandler :: "'p \<Rightarrow> 'h option"
  GetDependencies :: "'p \<Rightarrow> string list"
  CheckDependencies :: "'p \<Rightarrow> bool"

text \<open>
  \<^verbatim>\<open>struct LoadedPlugin\<close>. A null pointer is \<open>None\<close>. \<open>createFunc\<close> is the factory
  pointer: \<open>None\<close> when null, otherwise \<open>Some r\<close> where \<open>r\<close> is what calling it returns
  (again \<open>None\<close> for a null instance). \<open>destroyFunc\<close> records whether the pointer is set.
\<close>

record 'p LoadedPlugin =
  plugin :: "'p option"
  handle :: "nat option"
  filePath :: string
  createFunc :: "'p option option"
  destroyFunc :: bool

definition new_LoadedPlugin :: "'p LoadedPlugin" where
  "new_LoadedPlugin =
     \<lparr>plugin = None, handle = None, filePath = [], createFunc = None, destroyFunc = False\<rparr>"

text \<open>
  What the manager does to the world outside its own members: the calls of a plugin's
  lifecycle methods, the release of a native module (\<^verbatim>\<open>dlclose\<close> / \<^verbatim>\<open>FreeLibrary\<close>) and
  the destruction of a plugin instance (\<^verbatim>\<open>plugin.reset()\<close>), in the order they happen.
\<close>

datatype lifecycle_call = CallLoad | CallInitialize | CallStart | CallStop | CallUnload

datatype 'p sys_event =
  PluginCall string lifecycle_call
| DlClose nat
| Destroyed 'p

text \<open>
  Two ways in which a call of the manager does not return. \<open>Deadlock\<close>: the thread
  constructs a \<^verbatim>\<open>std::lock_guard\<close> on a \<^verbatim>\<open>std::mutex\<close> that it holds already (the
  standard leaves the behaviour undefined; the thread waits for itself). \<open>Crash\<close>: it calls
  into the code of a native module that has been released. A function that can end so
  returns \<open>failure + 'a\<close>, with \<open>Inr\<close> for a return.
\<close>

datatype failure = Deadlock | Crash

text \<open>
  \<^verbatim>\<open>class PluginManager\<close>. Both tables are \<^verbatim>\<open>std::unordered_map\<close>s keyed by the plugin
  name: an association list with one entry per key, kept in the order in which the keys
  were first inserted. The order in which a range-for walks such a table is not this
  order: it is left to the standard library, see \<open>iteration_order\<close> below. Every
  operation is taken to run alone, on one thread; of the two mutexes the model keeps what
  one thread can see, a second lock of \<^verbatim>\<open>_pluginsMutex\<close> by the thread that holds it
  (see \<open>GetPlugin_under\<close>). \<open>sys_log\<close> is not a member of the class; it is the trace
  of \<open>sys_event\<close>s so far.
\<close>

record ('p, 'h) PluginManager =
  loadedPlugins :: "(string \<times> 'p LoadedPlugin) list"
  eventHandlers :: "(string \<times> 'h) list"
  pluginDirectory :: string
  lastError :: string
  sys_log :: "'p sys_event list"

definition new_PluginManager :: "('p, 'h) PluginManager" where
  "new_PluginManager =
     \<lparr>loadedPlugins = [], eventHandlers = [], pluginDirectory = [], lastError = [],
      sys_log = []\<rparr>"

text \<open>
  The platform under the manager, taken as a parameter: the file system, the dynamic
  loader, the iteration order of \<^verbatim>\<open>std::unordered_map\<close> (which keys come first, given
  the keys in insertion order) and \<^verbatim>\<open>std::sort\<close> on the vector of (priority, handler)
  pairs. A native module that \<^verbatim>\<open>dlopen\<close> binds is described by its handle and its two
  exported symbols. \<open>dlclose_unmaps h\<close> says whether the release of handle \<open>h\<close>
  (\<^verbatim>\<open>dlclose\<close>, \<^verbatim>\<open>FreeLibrary\<close>) takes the module's code out of the process, as it does
  when this was the last reference to the module.
\<close>

record 'p dl_module =
  dl_handle :: nat
  dl_CreatePlugin :: "'p option option"
  dl_DestroyPlugin :: bool

record ('p, 'h) platform =
  fs_exists :: "string \<Rightarrow> bool"
  dlopen :: "string \<Rightarrow> 'p dl_module option"
  dlerror :: "string \<Rightarrow> string"
  dlclose_unmaps :: "nat \<Rightarrow> bool"
  iteration_order :: "string list \<Rightarrow> string list"
  std_sort :: "(PluginPriority \<times> 'h \<Rightarrow> PluginPriority \<times> 'h \<Rightarrow> bool) \<Rightarrow>
     (PluginPriority \<times> 'h) list \<Rightarrow> (PluginPriority \<times> 'h) list"

section \<open>Queries and the handler table (PluginManager.cpp)\<close>

definition GetPlugin :: "('p, 'h) PluginManager \<Rightarrow> string \<Rightarrow> 'p option" where
  "GetPlugin m pluginName =
     (case map_of (loadedPlugins m) pluginName of
        Some lp \<Rightarrow> plugin lp
      | None \<Rightarrow> None)"

text \<open>
  \<^verbatim>\<open>GetPlugin\<close> opens with a \<^verbatim>\<open>lock_guard\<close> on \<^verbatim>\<open>_pluginsMutex\<close>. \<open>GetPlugin\<close> above is the
  call made by a thread that does not hold this mutex; \<open>GetPlugin_under held\<close> is the
  call made by a thread of which \<open>held\<close> says whether it holds the mutex.
\<close>

definition GetPlugin_under ::
  "bool \<Rightarrow> ('p, 'h) PluginManager \<Rightarrow> string \<Rightarrow> failure + 'p option" where
  "GetPlugin_under held m pluginName =
     (if held then Inl Deadlock else Inr (GetPlugin m pluginName))"

definition GetLoadedPluginNames :: "('p, 'h) platform \<Rightarrow> ('p, 'h) PluginManager \<Rightarrow> string list" where
  "GetLoadedPluginNames pf m = iteration_order pf (map fst (loadedPlugins m))"

definition RegisterEventHandler ::
  "string \<Rightarrow> 'h \<Rightarrow> ('p, 'h) PluginManager \<Rightarrow> ('p, 'h) PluginManager" where
  "RegisterEventHandler pluginName handler m =
     m\<lparr>eventHandlers := AList.update pluginName handler (eventHandlers m)\<rparr>"

definition UnregisterEventHandler ::
  "string \<Rightarrow> ('p, 'h) PluginManager \<Rightarrow> ('p, 'h) PluginManager" where
  "UnregisterEventHandler pluginName m =
     m\<lparr>eventHandlers := AList.delete pluginName (eventHandlers m)\<rparr>"

section \<open>Dependency resolution\<close>

text \<open>
  \<^verbatim>\<open>ResolveDependencies\<close> calls itself for every dependency that is not yet in
  \<^verbatim>\<open>loadOrder\<close>, with nothing that bounds the depth of the recursion. The first argument
  bounds it in the model: \<open>None\<close> is a recursion that went deeper than the bound, so a
  call returns in the program exactly when some bound gives \<open>Some\<close>. The result is the
  returned \<^verbatim>\<open>bool\<close> and the vector \<^verbatim>\<open>loadOrder\<close>, which the program passes by
  reference and which keeps what was pushed before a failure. \<open>ResolveDependencies_loop\<close>
  is the range-for over the dependencies. (\<^verbatim>\<open>PluginManager.h\<close> declares a
  \<^verbatim>\<open>HasCircularDependency\<close>; nothing defines or calls it.)
\<close>

fun ResolveDependencies ::
  "nat \<Rightarrow> ('p, 'h) IPlugin \<Rightarrow> ('p, 'h) PluginManager \<Rightarrow> string \<Rightarrow> string list \<Rightarrow>
     (bool \<times> string list) option"
and ResolveDependencies_loop ::
  "nat \<Rightarrow> ('p, 'h) IPlugin \<Rightarrow> ('p, 'h) PluginManager \<Rightarrow> string list \<Rightarrow> string list \<Rightarrow>
     (bool \<times> string list) option"
where
  "ResolveDependencies 0 vt m pluginName loadOrder = None"
| "ResolveDependencies (Suc n) vt m pluginName loadOrder =
     (case GetPlugin m pluginName of
        None \<Rightarrow> Some (False, loadOrder)
      | Some p \<Rightarrow>
          (case ResolveDependencies_loop n vt m (GetDependencies vt p) loadOrder of
             None \<Rightarrow> None
           | Some (ok, lo) \<Rightarrow>
               if ok then Some (True, lo @ [pluginName]) else Some (False, lo)))"
| "ResolveDependencies_loop n vt m [] loadOrder = Some (True, loadOrder)"
| "ResolveDependencies_loop n vt m (d # ds) loadOrder =
     (if d \<in> set loadOrder then ResolveDependencies_loop n vt m ds loadOrder
      else (case ResolveDependencies n vt m d loadOrder of
              None \<Rightarrow> None
            | Some (ok, lo) \<Rightarrow>
                if ok then ResolveDependencies_loop n vt m ds lo else Some (False, lo)))"

text \<open>The loop of \<^verbatim>\<open>GetPluginLoadOrder\<close>; the value \<^verbatim>\<open>ResolveDependencies\<close> returns is
  dropped, the vector it changed is kept.\<close>

fun GetPluginLoadOrder_loop ::
  "nat \<Rightarrow> ('p, 'h) IPlugin \<Rightarrow> ('p, 'h) PluginManager \<Rightarrow> string list \<Rightarrow> string list \<Rightarrow>
     string list option"
where
  "GetPluginLoadOrder_loop n vt m [] loadOrder = Some loadOrder"
| "GetPluginLoadOrder_loop n vt m (pluginName # rest) loadOrder =
     (if pluginName \<in> set loadOrder then GetPluginLoadOrder_loop n vt m rest loadOrder
      else (case ResolveDependencies n vt m pluginName loadOrder of
              None \<Rightarrow> None
            | Some (ok, lo) \<Rightarrow> GetPluginLoadOrder_loop n vt m rest lo))"

definition GetPluginLoadOrder ::
  "nat \<Rightarrow> ('p, 'h) platform \<Rightarrow> ('p, 'h) IPlugin \<Rightarrow> ('p, 'h) PluginManager \<Rightarrow>
     string list option" where
  "GetPluginLoadOrder n pf vt m =
     GetPluginLoadOrder_loop n vt m (GetLoadedPluginNames pf m) []"

text \<open>\<^verbatim>\<open>CheckPluginDependencies\<close> takes no lock of its own; it calls \<^verbatim>\<open>GetPlugin\<close>.
  \<open>held\<close> says whether the caller holds \<^verbatim>\<open>_pluginsMutex\<close>.\<close>

definition CheckPluginDependencies ::
  "bool \<Rightarrow> ('p, 'h) IPlugin \<Rightarrow> ('p, 'h) PluginManager \<Rightarrow> string \<Rightarrow> failure + bool" where
  "CheckPluginDependencies held vt m pluginName =
     (case GetPlugin_under held m pluginName of
        Inl f \<Rightarrow> Inl f
      | Inr None \<Rightarrow> Inr False
      | Inr (Some p) \<Rightarrow> Inr (CheckDependencies vt p))"

text \<open>The dependency graph of the registered plugins: what a registered name declares,
  and the edges from a dependency to the plugin that declares it.\<close>

definition declared_deps ::
  "('p, 'h) IPlugin \<Rightarrow> ('p, 'h) PluginManager \<Rightarrow> string \<Rightarrow> string list option" where
  "declared_deps vt m pluginName = map_option (GetDependencies vt) (GetPlugin m pluginName)"

definition dep_rel :: "('p, 'h) IPlugin \<Rightarrow> ('p, 'h) PluginManager \<Rightarrow> (string \<times> string) set" where
  "dep_rel vt m = {(d, p). \<exists>ds. declared_deps vt m p = Some ds \<and> d \<in> set ds}"

definition deps_registered :: "('p, 'h) IPlugin \<Rightarrow> ('p, 'h) PluginManager \<Rightarrow> bool" where
  "deps_registered vt m = (\<forall>(d, p) \<in> dep_rel vt m. declared_deps vt m d \<noteq> None)"

text \<open>A sequence is in dependency order when every name in it is registered, occurs
  once, and has all its declared dependencies strictly before it.\<close>

definition dep_ordered :: "('p, 'h) IPlugin \<Rightarrow> ('p, 'h) PluginManager \<Rightarrow> string list \<Rightarrow> bool" where
  "dep_ordered vt m lo =
     (\<forall>i < length lo. \<exists>ds. declared_deps vt m (lo ! i) = Some ds \<and>
        set ds \<subseteq> set (take i lo) \<and> lo ! i \<notin> set (take i lo))"


text \<open>A set of names is closed when each of them is registered and has all its declared
  dependencies in the set.\<close>

definition deps_closed :: "('p, 'h) IPlugin \<Rightarrow> ('p, 'h) PluginManager \<Rightarrow> string list \<Rightarrow> bool" where
  "deps_closed vt m lo =
     (\<forall>x \<in> set lo. \<exists>ds. declared_deps vt m x = Some ds \<and> set ds \<subseteq> set lo)"

text \<open>\<^verbatim>\<open>LoadPlugin\<close> stores an entry only after the factory returned an instance, so every
  entry of the table holds one.\<close>

definition instances_present :: "('p, 'h) PluginManager \<Rightarrow> bool" where
  "instances_present m = (\<forall>(n, lp) \<in> set (loadedPlugins m). plugin lp \<noteq> None)"

text \<open>What the C++ standard promises of a walk over an \<^verbatim>\<open>unordered_map\<close>: every
  element is visited once.\<close>

definition visits_each_once :: "('p, 'h) platform \<Rightarrow> bool" where
  "visits_each_once pf = (\<forall>ks. mset (iteration_order pf ks) = mset ks)"

section \<open>Loading and unloading\<close>

text \<open>
  \<^verbatim>\<open>UnloadPluginLibrary\<close> releases the module first and destroys the instance last
  (\<^verbatim>\<open>plugin.reset()\<close>). The instance was made by the factory of this module and its
  destructor is code of this module: when the release has taken the module out of the
  process, the destruction of an instance is a call into code that is gone.
\<close>

definition UnloadPluginLibrary ::
  "('p, 'h) platform \<Rightarrow> 'p LoadedPlugin \<Rightarrow> ('p, 'h) PluginManager \<Rightarrow>
     failure + 'p LoadedPlugin \<times> ('p, 'h) PluginManager" where
  "UnloadPluginLibrary pf loadedPlugin m =
     (let m1 = (case handle loadedPlugin of
                  Some h \<Rightarrow> m\<lparr>sys_log := sys_log m @ [DlClose h]\<rparr>
                | None \<Rightarrow> m);
          unmapped = (case handle loadedPlugin of
                        Some h \<Rightarrow> dlclose_unmaps pf h
                      | None \<Rightarrow> False);
          cleared = loadedPlugin\<lparr>handle := None, createFunc := None, destroyFunc := False,
                      plugin := None\<rparr>
      in case plugin loadedPlugin of
           None \<Rightarrow> Inr (cleared, m1)
         | Some p \<Rightarrow>
             if unmapped then Inl Crash
             else Inr (cleared, m1\<lparr>sys_log := sys_log m1 @ [Destroyed p]\<rparr>))"

definition LoadPluginLibrary ::
  "('p, 'h) platform \<Rightarrow> string \<Rightarrow> 'p LoadedPlugin \<Rightarrow> ('p, 'h) PluginManager \<Rightarrow>
     failure + bool \<times> 'p LoadedPlugin \<times> ('p, 'h) PluginManager" where
  "LoadPluginLibrary pf path loadedPlugin m =
     (case dlopen pf path of
        None \<Rightarrow>
          Inr (False, loadedPlugin,
           m\<lparr>lastError := ''Failed to load library: '' @ path @ '' ('' @ dlerror pf path @ '')''\<rparr>)
      | Some md \<Rightarrow>
          (let lp1 = loadedPlugin\<lparr>handle := Some (dl_handle md),
                       createFunc := dl_CreatePlugin md, destroyFunc := dl_DestroyPlugin md\<rparr>
           in case createFunc lp1 of
                None \<Rightarrow>
                  (case UnloadPluginLibrary pf lp1
                          (m\<lparr>lastError := ''Plugin does not export CreatePlugin function: '' @ path\<rparr>) of
                     Inl f \<Rightarrow> Inl f
                   | Inr (lp2, m2) \<Rightarrow> Inr (False, lp2, m2))
              | Some created \<Rightarrow> Inr (True, lp1\<lparr>plugin := created, filePath := path\<rparr>, m)))"

definition ValidatePlugin ::
  "('p, 'h) IPlugin \<Rightarrow> 'p option \<Rightarrow> ('p, 'h) PluginManager \<Rightarrow> bool \<times> ('p, 'h) PluginManager" where
  "ValidatePlugin vt pl m =
     (case pl of
        None \<Rightarrow> (False, m)
      | Some p \<Rightarrow>
          (let info = GetInfo vt p in
           if name info = [] then (False, m\<lparr>lastError := ''Plugin name cannot be empty''\<rparr>)
           else if version info = [] then
             (False, m\<lparr>lastError := ''Plugin version cannot be empty for plugin: '' @ name info\<rparr>)
           else (True, m)))"

text \<open>The end of every rejection in \<^verbatim>\<open>LoadPlugin\<close>:
  \<^verbatim>\<open>UnloadPluginLibrary(*loadedPlugin); return false;\<close>\<close>

definition unload_and_return_false ::
  "('p, 'h) platform \<Rightarrow> 'p LoadedPlugin \<Rightarrow> ('p, 'h) PluginManager \<Rightarrow>
     failure + bool \<times> ('p, 'h) PluginManager" where
  "unload_and_return_false pf loadedPlugin m =
     (case UnloadPluginLibrary pf loadedPlugin m of
        Inl f \<Rightarrow> Inl f
      | Inr (lp, m') \<Rightarrow> Inr (False, m'))"

definition LoadPlugin ::
  "('p, 'h) platform \<Rightarrow> ('p, 'h) IPlugin \<Rightarrow> string \<Rightarrow> ('p, 'h) PluginManager \<Rightarrow>
     failure + bool \<times> ('p, 'h) PluginManager" where
  "LoadPlugin pf vt path m =
     (if \<not> fs_exists pf path then
        Inr (False, m\<lparr>lastError := ''Plugin file does not exist: '' @ path\<rparr>)
      else
        (case LoadPluginLibrary pf path new_LoadedPlugin m of
           Inl f \<Rightarrow> Inl f
         | Inr (bound, loadedPlugin, m1) \<Rightarrow>
             if \<not> bound then Inr (False, m1)
             else
               (case plugin loadedPlugin of
                  None \<Rightarrow>
                    unload_and_return_false pf loadedPlugin
                      (m1\<lparr>lastError := ''Failed to create plugin instance from: '' @ path\<rparr>)
                | Some p \<Rightarrow>
                    (let (valid, m2) = ValidatePlugin vt (Some p) m1 in
                     if \<not> valid then unload_and_return_false pf loadedPlugin m2
                     else
                       (let pluginName = name (GetInfo vt p) in
                        if map_of (loadedPlugins m2) pluginName \<noteq> None then
                          unload_and_return_false pf loadedPlugin
                            (m2\<lparr>lastError := ''Plugin already loaded: '' @ pluginName\<rparr>)
                        else
                          (let (loaded, p') = Load vt p;
                               m3 = m2\<lparr>sys_log := sys_log m2 @ [PluginCall pluginName CallLoad]\<rparr>;
                               loadedPlugin' = loadedPlugin\<lparr>plugin := Some p'\<rparr>
                           in if \<not> loaded then
                                unload_and_return_false pf loadedPlugin'
                                  (m3\<lparr>lastError := ''Plugin failed to load: '' @ pluginName\<rparr>)
                              else
                                Inr (True, m3\<lparr>loadedPlugins :=
                                   AList.update pluginName loadedPlugin' (loadedPlugins m3)\<rparr>)))))))"

text \<open>
  \<^verbatim>\<open>UnloadPlugin\<close> dereferences \<^verbatim>\<open>loadedPlugin->plugin\<close> without a test. An entry with
  no instance never reaches the table (\<open>instances_present\<close>); for such an entry the model
  makes no call. The entry is erased after \<^verbatim>\<open>UnloadPluginLibrary\<close> has returned.
\<close>

definition UnloadPlugin ::
  "('p, 'h) platform \<Rightarrow> ('p, 'h) IPlugin \<Rightarrow> string \<Rightarrow> ('p, 'h) PluginManager \<Rightarrow>
     failure + bool \<times> ('p, 'h) PluginManager" where
  "UnloadPlugin pf vt pluginName m =
     (case map_of (loadedPlugins m) pluginName of
        None \<Rightarrow> Inr (False, m\<lparr>lastError := ''Plugin not found: '' @ pluginName\<rparr>)
      | Some loadedPlugin \<Rightarrow>
          (let (pl, m1) =
                 (case plugin loadedPlugin of
                    None \<Rightarrow> (None, m)
                  | Some p \<Rightarrow>
                      (let (p1, ma) =
                             (if GetState vt p = RUNNING then
                                (Stop vt p, m\<lparr>sys_log := sys_log m @ [PluginCall pluginName CallStop]\<rparr>)
                              else (p, m))
                       in (Some (Unload vt p1),
                           ma\<lparr>sys_log := sys_log ma @ [PluginCall pluginName CallUnload]\<rparr>)));
               m2 = UnregisterEventHandler pluginName m1
           in case UnloadPluginLibrary pf (loadedPlugin\<lparr>plugin := pl\<rparr>) m2 of
                Inl f \<Rightarrow> Inl f
              | Inr (lp', m3) \<Rightarrow>
                  Inr (True, m3\<lparr>loadedPlugins := AList.delete pluginName (loadedPlugins m3)\<rparr>)))"

section \<open>Lifecycle operations\<close>

text \<open>
  \<^verbatim>\<open>InitializePlugin\<close> takes \<^verbatim>\<open>_pluginsMutex\<close> in its first line and holds it to its end.
  For a name that is in the table its next call is \<^verbatim>\<open>CheckPluginDependencies\<close>, made with
  the mutex held. What follows that call in the program follows it here; it makes no test
  of the plugin's state before it calls \<^verbatim>\<open>Initialize\<close>.
\<close>

definition InitializePlugin ::
  "('p, 'h) IPlugin \<Rightarrow> string \<Rightarrow> ('p, 'h) PluginManager \<Rightarrow>
     failure + bool \<times> ('p, 'h) PluginManager" where
  "InitializePlugin vt pluginName m =
     (case map_of (loadedPlugins m) pluginName of
        None \<Rightarrow> Inr (False, m)
      | Some loadedPlugin \<Rightarrow>
          (case CheckPluginDependencies True vt m pluginName of
             Inl f \<Rightarrow> Inl f
           | Inr met \<Rightarrow>
               if \<not> met then Inr (False, m)
               else
                 (case plugin loadedPlugin of
                    None \<Rightarrow> Inr (False, m)
                  | Some p \<Rightarrow>
                      (let (ok, p') = Initialize vt p;
                           m1 = m\<lparr>loadedPlugins :=
                                    AList.update pluginName (loadedPlugin\<lparr>plugin := Some p'\<rparr>)
                                      (loadedPlugins m),
                                  sys_log := sys_log m @ [PluginCall pluginName CallInitialize]\<rparr>
                       in if \<not> ok then Inr (False, m1)
                          else
                            (case GetEventHandler vt p' of
                               Some eventHandler \<Rightarrow>
                                 Inr (True, RegisterEventHandler pluginName eventHandler m1)
                             | None \<Rightarrow> Inr (True, m1))))))"

text \<open>The body of the range-for of \<^verbatim>\<open>StartAllPlugins\<close> and of \<^verbatim>\<open>StopAllPlugins\<close>, for
  the entry under one key; the loops visit the keys in the table's iteration order.\<close>

definition StartAllPlugins_body ::
  "('p, 'h) IPlugin \<Rightarrow> string \<Rightarrow> ('p, 'h) PluginManager \<Rightarrow> ('p, 'h) PluginManager" where
  "StartAllPlugins_body vt pluginName m =
     (case map_of (loadedPlugins m) pluginName of
        None \<Rightarrow> m
      | Some loadedPlugin \<Rightarrow>
          (case plugin loadedPlugin of
             None \<Rightarrow> m
           | Some p \<Rightarrow>
               if GetState vt p = INITIALIZED then
                 m\<lparr>loadedPlugins :=
                     AList.update pluginName (loadedPlugin\<lparr>plugin := Some (Start vt p)\<rparr>)
                       (loadedPlugins m),
                   sys_log := sys_log m @ [PluginCall pluginName CallStart]\<rparr>
               else m))"

definition StartAllPlugins ::
  "('p, 'h) platform \<Rightarrow> ('p, 'h) IPlugin \<Rightarrow> ('p, 'h) PluginManager \<Rightarrow> ('p, 'h) PluginManager" where
  "StartAllPlugins pf vt m = fold (StartAllPlugins_body vt) (GetLoadedPluginNames pf m) m"

definition StopAllPlugins_body ::
  "('p, 'h) IPlugin \<Rightarrow> string \<Rightarrow> ('p, 'h) PluginManager \<Rightarrow> ('p, 'h) PluginManager" where
  "StopAllPlugins_body vt pluginName m =
     (case map_of (loadedPlugins m) pluginName of
        None \<Rightarrow> m
      | Some loadedPlugin \<Rightarrow>
          (case plugin loadedPlugin of
             None \<Rightarrow> m
           | Some p \<Rightarrow>
               if GetState vt p = RUNNING then
                 m\<lparr>loadedPlugins :=
                     AList.update pluginName (loadedPlugin\<lparr>plugin := Some (Stop vt p)\<rparr>)
                       (loadedPlugins m),
                   sys_log := sys_log m @ [PluginCall pluginName CallStop]\<rparr>
               else m))"

definition StopAllPlugins ::
  "('p, 'h) platform \<Rightarrow> ('p, 'h) IPlugin \<Rightarrow> ('p, 'h) PluginManager \<Rightarrow> ('p, 'h) PluginManager" where
  "StopAllPlugins pf vt m = fold (StopAllPlugins_body vt) (GetLoadedPluginNames pf m) m"

text \<open>The lifecycle state of the plugin registered under a name, if any.\<close>

definition plugin_state ::
  "('p, 'h) IPlugin \<Rightarrow> ('p, 'h) PluginManager \<Rightarrow> string \<Rightarrow> PluginState option" where
  "plugin_state vt m pluginName = map_option (GetState vt) (GetPlugin m pluginName)"


section \<open>Event dispatch\<close>

text \<open>The comparison given to \<^verbatim>\<open>std::sort\<close>: \<^verbatim>\<open>a.first > b.first\<close>.\<close>

definition prio_greater :: "PluginPriority \<times> 'h \<Rightarrow> PluginPriority \<times> 'h \<Rightarrow> bool" where
  "prio_greater a b = (priority_value (fst a) > priority_value (fst b))"

text \<open>What a handler binding contributes to \<^verbatim>\<open>prioritizedHandlers\<close>: nothing unless its
  plugin is found and \<^verbatim>\<open>RUNNING\<close>.\<close>

definition running_entry ::
  "('p, 'h) IPlugin \<Rightarrow> ('p, 'h) PluginManager \<Rightarrow> string \<times> 'h \<Rightarrow> (PluginPriority \<times> 'h) option" where
  "running_entry vt m binding =
     (case GetPlugin m (fst binding) of
        None \<Rightarrow> None
      | Some p \<Rightarrow>
          if GetState vt p = RUNNING then Some (priority (GetInfo vt p), snd binding)
          else None)"

text \<open>The vector \<^verbatim>\<open>prioritizedHandlers\<close> of \<^verbatim>\<open>GetEventHandlersByPriority\<close>: filled by
  the walk over \<^verbatim>\<open>_eventHandlers\<close>, then sorted.\<close>

definition prioritizedHandlers_unsorted ::
  "('p, 'h) platform \<Rightarrow> ('p, 'h) IPlugin \<Rightarrow> ('p, 'h) PluginManager \<Rightarrow> (PluginPriority \<times> 'h) list" where
  "prioritizedHandlers_unsorted pf vt m =
     List.map_filter
       (\<lambda>pluginName.
          case map_of (eventHandlers m) pluginName of
            None \<Rightarrow> None
          | Some handler \<Rightarrow> running_entry vt m (pluginName, handler))
       (iteration_order pf (map fst (eventHandlers m)))"

definition prioritizedHandlers ::
  "('p, 'h) platform \<Rightarrow> ('p, 'h) IPlugin \<Rightarrow> ('p, 'h) PluginManager \<Rightarrow> (PluginPriority \<times> 'h) list" where
  "prioritizedHandlers pf vt m = std_sort pf prio_greater (prioritizedHandlers_unsorted pf vt m)"

definition GetEventHandlersByPriority ::
  "('p, 'h) platform \<Rightarrow> ('p, 'h) IPlugin \<Rightarrow> ('p, 'h) PluginManager \<Rightarrow> 'h list" where
  "GetEventHandlersByPriority pf vt m = map snd (prioritizedHandlers pf vt m)"

text \<open>
  The range-for of a dispatch function calls one virtual method of each handler with
  no \<^verbatim>\<open>try\<close> around the call. \<open>call h\<close> says how that method of handler \<open>h\<close> ends:
  \<open>None\<close> when it returns, \<open>Some e\<close> when it throws \<open>e\<close>. The result is the list of the
  handlers that were called, in order, and the exception that leaves the dispatch
  function, if any.
\<close>

fun invoke_handlers :: "('h \<Rightarrow> 'e option) \<Rightarrow> 'h list \<Rightarrow> 'h list \<times> 'e option" where
  "invoke_handlers call [] = ([], None)"
| "invoke_handlers call (h # hs) =
     (case call h of
        Some e \<Rightarrow> ([h], Some e)
      | None \<Rightarrow> (let (called, r) = invoke_handlers call hs in (h # called, r)))"

definition OnPlayerLogin ::
  "('p, 'h) platform \<Rightarrow> ('p, 'h) IPlugin \<Rightarrow> ('h \<Rightarrow> 'e option) \<Rightarrow> ('p, 'h) PluginManager \<Rightarrow>
     'h list \<times> 'e option" where
  "OnPlayerLogin pf vt handler_OnPlayerLogin m =
     invoke_handlers handler_OnPlayerLogin (GetEventHandlersByPriority pf vt m)"

definition OnPlayerLogout ::
  "('p, 'h) platform \<Rightarrow> ('p, 'h) IPlugin \<Rightarrow> ('h \<Rightarrow> 'e option) \<Rightarrow> ('p, 'h) PluginManager \<Rightarrow>
     'h list \<times> 'e option" where
  "OnPlayerLogout pf vt handler_OnPlayerLogout m =
     invoke_handlers handler_OnPlayerLogout (GetEventHandlersByPriority pf vt m)"

definition OnWorldUpdate ::
  "('p, 'h) platform \<Rightarrow> ('p, 'h) IPlugin \<Rightarrow> ('h \<Rightarrow> 'e option) \<Rightarrow> ('p, 'h) PluginManager \<Rightarrow>
     'h list \<times> 'e option" where
  "OnWorldUpdate pf vt handler_OnWorldUpdate m =
     invoke_handlers handler_OnWorldUpdate (GetEventHandlersByPriority pf vt m)"

text \<open>What \<^verbatim>\<open>std::sort\<close> promises for the comparison above: a permutation of its input in
  which no element is followed by one of greater priority. It is not a stable sort.\<close>

definition sorts_by_priority :: "('p, 'h) platform \<Rightarrow> bool" where
  "sorts_by_priority pf =
     (\<forall>xs. mset (std_sort pf prio_greater xs) = mset xs \<and>
           sorted_wrt (\<lambda>a b. \<not> prio_greater b a) (std_sort pf prio_greater xs))"

text \<open>The bindings of running plugins with their priorities, in registration order.\<close>

definition running_bindings ::
  "('p, 'h) IPlugin \<Rightarrow> ('p, 'h) PluginManager \<Rightarrow> (PluginPriority \<times> 'h) list" where
  "running_bindings vt m = List.map_filter (running_entry vt m) (eventHandlers m)"

text \<open>The dispatch order as the specification words it: the handlers of the running
  plugins by descending priority, equal priorities in ascending registration order
  (\<open>sort_key\<close> is a stable insertion sort).\<close>

definition spec_dispatch_order :: "('p, 'h) IPlugin \<Rightarrow> ('p, 'h) PluginManager \<Rightarrow> 'h list" where
  "spec_dispatch_order vt m =
     map snd (sort_key (\<lambda>a. - int (priority_value (fst a))) (running_bindings vt m))"

section \<open>The example plugin (ExamplePlugin.h, ExamplePlugin.cpp)\<close>

text \<open>
  The members of \<^verbatim>\<open>class ExamplePlugin\<close> that the manager reads or its lifecycle methods
  write (\<^verbatim>\<open>_info\<close>, \<^verbatim>\<open>_dependencies\<close>, \<^verbatim>\<open>_eventHandler\<close>, \<^verbatim>\<open>_state\<close>, here with the prefix \<open>m\<close>); the handler object
  is named by a string. The lifecycle methods set \<^verbatim>\<open>_state\<close> whatever it was before, and
  \<^verbatim>\<open>Load\<close> and \<^verbatim>\<open>Initialize\<close> always return true.
\<close>

record ExamplePlugin =
  m_info :: PluginInfo
  m_dependencies :: "string list"
  m_eventHandler :: string
  m_state :: PluginState

definition ExamplePlugin_vtable :: "(ExamplePlugin, string) IPlugin" where
  "ExamplePlugin_vtable =
     \<lparr>Load = (\<lambda>p. (True, (p\<lparr>m_state := LOADING\<rparr>)\<lparr>m_state := LOADED\<rparr>)),
      Initialize = (\<lambda>p. (True, (p\<lparr>m_state := INITIALIZING\<rparr>)\<lparr>m_state := INITIALIZED\<rparr>)),
      Start = (\<lambda>p. p\<lparr>m_state := RUNNING\<rparr>),
      Stop = (\<lambda>p. (p\<lparr>m_state := STOPPING\<rparr>)\<lparr>m_state := LOADED\<rparr>),
      Unload = (\<lambda>p. p\<lparr>m_state := UNLOADED\<rparr>),
      GetInfo = m_info,
      GetState = m_state,
      GetEventHandler = (\<lambda>p. Some (m_eventHandler p)),
      GetDependencies = m_dependencies,
      CheckDependencies = (\<lambda>p. True)\<rparr>"

text \<open>The object the constructor of \<^verbatim>\<open>ExamplePlugin\<close> builds.\<close>

definition ExamplePlugin_new :: ExamplePlugin where
  "ExamplePlugin_new =
     \<lparr>m_info = \<lparr>name = ''ExamplePlugin'', version = ''1.0.0'', author = ''TrinityCore Team'',
        description = ''Example plugin demonstrating the TrinityCore plugin system'',
        website = ''https://trinitycore.org'', dependencies = [], priority = NORMAL,
        autoLoad = True\<rparr>,
      m_dependencies = [],
      m_eventHandler = ''ExampleEventHandler'',
      m_state = UNLOADED\<rparr>"

text \<open>A plugin written after \<^verbatim>\<open>ExamplePlugin\<close> whose constructor sets its own name,
  dependencies (\<^verbatim>\<open>_dependencies.push_back(...)\<close>) and priority; its handler is named
  after the plugin.\<close>

definition plugin_like_example :: "string \<Rightarrow> string list \<Rightarrow> PluginPriority \<Rightarrow> ExamplePlugin" where
  "plugin_like_example nm ds pr =
     ExamplePlugin_new\<lparr>m_info := (m_info ExamplePlugin_new)\<lparr>name := nm, priority := pr\<rparr>,
       m_dependencies := ds, m_eventHandler := ''handler of '' @ nm\<rparr>"

text \<open>A platform for the examples: the native module at path \<open>''/plugins/'' @ nm\<close> is
  taken from a list of (name, handle, instance the factory returns); a walk over an
  \<^verbatim>\<open>unordered_map\<close> meets the keys newest first; the sort is an insertion sort that
  keeps elements of equal priority in the order of its input; the release of a handle
  takes the module out of the process. \<open>keeps_modules_mapped\<close> is the same platform with
  a loader that leaves a released module where it is (a module that is referenced from
  elsewhere, or one that is linked never to be deleted).\<close>

fun insert_by :: "('a \<Rightarrow> 'a \<Rightarrow> bool) \<Rightarrow> 'a \<Rightarrow> 'a list \<Rightarrow> 'a list" where
  "insert_by precedes x [] = [x]"
| "insert_by precedes x (y # ys) =
     (if precedes y x then y # insert_by precedes x ys else x # y # ys)"

definition insertion_sort :: "('a \<Rightarrow> 'a \<Rightarrow> bool) \<Rightarrow> 'a list \<Rightarrow> 'a list" where
  "insertion_sort precedes xs = foldr (insert_by precedes) xs []"

definition example_platform ::
  "(string \<times> nat \<times> ExamplePlugin) list \<Rightarrow> (ExamplePlugin, string) platform" where
  "example_platform files =
     \<lparr>fs_exists = (\<lambda>path. path \<in> set (map (\<lambda>f. ''/plugins/'' @ fst f) files)),
      dlopen = (\<lambda>path.
        map_option
          (\<lambda>f. \<lparr>dl_handle = fst (snd f), dl_CreatePlugin = Some (Some (snd (snd f))),
                dl_DestroyPlugin = True\<rparr>)
          (find (\<lambda>f. ''/plugins/'' @ fst f = path) files)),
      dlerror = (\<lambda>path. ''cannot open shared object file''),
      dlclose_unmaps = (\<lambda>h. True),
      iteration_order = rev,
      std_sort = insertion_sort\<rparr>"

definition keeps_modules_mapped ::
  "(ExamplePlugin, string) platform \<Rightarrow> (ExamplePlugin, string) platform" where
  "keeps_modules_mapped pf = pf\<lparr>dlclose_unmaps := (\<lambda>h. False)\<rparr>"

text \<open>\<^verbatim>\<open>LoadPlugin\<close> on each path in turn, the returned values dropped (as
  \<^verbatim>\<open>LoadAllPlugins\<close> drops them); a call that does not return ends the sequence.\<close>

fun load_each ::
  "('p, 'h) platform \<Rightarrow> ('p, 'h) IPlugin \<Rightarrow> string list \<Rightarrow> ('p, 'h) PluginManager \<Rightarrow>
     failure + ('p, 'h) PluginManager" where
  "load_each pf vt [] m = Inr m"
| "load_each pf vt (path # paths) m =
     (case LoadPlugin pf vt path m of
        Inl f \<Rightarrow> Inl f
      | Inr (ok, m') \<Rightarrow> load_each pf vt paths m')"

text \<open>The manager after a sequence of loads that all return; the freshly constructed
  one stands for the sequences that do not.\<close>

definition loaded_from ::
  "('p, 'h) platform \<Rightarrow> ('p, 'h) IPlugin \<Rightarrow> string list \<Rightarrow> ('p, 'h) PluginManager" where
  "loaded_from pf vt paths =
     (case load_each pf vt paths new_PluginManager of
        Inl f \<Rightarrow> new_PluginManager
      | Inr m \<Rightarrow> m)"

text \<open>
  What a host does that initializes a plugin through the public members of the manager
  and of the plugin: \<^verbatim>\<open>GetPlugin(name)->Initialize()\<close>, and after a success
  \<^verbatim>\<open>RegisterEventHandler(name, GetPlugin(name)->GetEventHandler())\<close> when there is a
  handler. Each of these calls takes and gives back the mutex it needs.
\<close>

definition host_initialize ::
  "('p, 'h) IPlugin \<Rightarrow> string \<Rightarrow> ('p, 'h) PluginManager \<Rightarrow> ('p, 'h) PluginManager" where
  "host_initialize vt pluginName m =
     (case map_of (loadedPlugins m) pluginName of
        None \<Rightarrow> m
      | Some loadedPlugin \<Rightarrow>
          (case plugin loadedPlugin of
             None \<Rightarrow> m
           | Some p \<Rightarrow>
               (let (ok, p') = Initialize vt p;
                    m1 = m\<lparr>loadedPlugins :=
                             AList.update pluginName (loadedPlugin\<lparr>plugin := Some p'\<rparr>)
                               (loadedPlugins m),
                           sys_log := sys_log m @ [PluginCall pluginName CallInitialize]\<rparr>
                in if \<not> ok then m1
                   else (case GetEventHandler vt p' of
                           Some eventHandler \<Rightarrow> RegisterEventHandler pluginName eventHandler m1
                         | None \<Rightarrow> m1))))"

text \<open>Two plugins that depend on each other.\<close>

definition cyclic_files :: "(string \<times> nat \<times> ExamplePlugin) list" where
  "cyclic_files =
     [(''A'', 1, plugin_like_example ''A'' [''B''] NORMAL),
      (''B'', 2, plugin_like_example ''B'' [''A''] NORMAL)]"

definition cyclic_manager :: "(ExamplePlugin, string) PluginManager" where
  "cyclic_manager =
     loaded_from (example_platform cyclic_files) ExamplePlugin_vtable
       [''/plugins/A'', ''/plugins/B'']"

text \<open>A plugin whose second dependency is not registered.\<close>

definition missing_files :: "(string \<times> nat \<times> ExamplePlugin) list" where
  "missing_files =
     [(''A'', 1, plugin_like_example ''A'' [''B'', ''Missing''] NORMAL),
      (''B'', 2, plugin_like_example ''B'' [] NORMAL)]"

definition missing_manager :: "(ExamplePlugin, string) PluginManager" where
  "missing_manager =
     loaded_from (example_platform missing_files) ExamplePlugin_vtable
       [''/plugins/A'', ''/plugins/B'']"

text \<open>Four plugins with an acyclic dependency graph.\<close>

definition acyclic_files :: "(string \<times> nat \<times> ExamplePlugin) list" where
  "acyclic_files =
     [(''A'', 1, plugin_like_example ''A'' [] NORMAL),
      (''B'', 2, plugin_like_example ''B'' [''A''] NORMAL),
      (''C'', 3, plugin_like_example ''C'' [''A'', ''D''] NORMAL),
      (''D'', 4, plugin_like_example ''D'' [] NORMAL)]"

definition acyclic_manager :: "(ExamplePlugin, string) PluginManager" where
  "acyclic_manager =
     loaded_from (example_platform acyclic_files) ExamplePlugin_vtable
       [''/plugins/A'', ''/plugins/B'', ''/plugins/C'', ''/plugins/D'']"

text \<open>Three plugins of priorities High, Normal, High: loaded in this order
  (\<open>loaded_manager\<close>), then initialized by the host in this order, so that their handlers
  are registered in this order (\<open>initialized_manager\<close>), and started
  (\<open>dispatch_manager\<close>).\<close>

definition dispatch_files :: "(string \<times> nat \<times> ExamplePlugin) list" where
  "dispatch_files =
     [(''A'', 1, plugin_like_example ''A'' [] HIGH),
      (''B'', 2, plugin_like_example ''B'' [] NORMAL),
      (''C'', 3, plugin_like_example ''C'' [] HIGH)]"

definition loaded_manager :: "(ExamplePlugin, string) PluginManager" where
  "loaded_manager =
     loaded_from (example_platform dispatch_files) ExamplePlugin_vtable
       [''/plugins/A'', ''/plugins/B'', ''/plugins/C'']"

definition initialized_manager :: "(ExamplePlugin, string) PluginManager" where
  "initialized_manager =
     fold (host_initialize ExamplePlugin_vtable) [''A'', ''B'', ''C''] loaded_manager"

definition dispatch_manager :: "(ExamplePlugin, string) PluginManager" where
  "dispatch_manager =
     StartAllPlugins (example_platform dispatch_files) ExamplePlugin_vtable initialized_manager"

text \<open>Native modules whose plugin has an empty name, an empty version, or the name \<open>A\<close>
  of a plugin that \<open>dispatch_manager\<close> holds already.\<close>

definition invalid_files :: "(string \<times> nat \<times> ExamplePlugin) list" where
  "invalid_files =
     [(''noname'', 7, plugin_like_example [] [] NORMAL),
      (''noversion'', 8,
         ExamplePlugin_new\<lparr>m_info := (m_info ExamplePlugin_new)\<lparr>name := ''V'', version := []\<rparr>\<rparr>),
      (''A2'', 9, plugin_like_example ''A'' [] LOW)]"

text \<open>A plugin written as \<^verbatim>\<open>ExamplePlugin\<close> but for one method: its \<^verbatim>\<open>Unload\<close> releases
  what it holds and leaves \<^verbatim>\<open>_state\<close> as it is.\<close>

definition unload_keeps_state :: "(ExamplePlugin, string) IPlugin" where
  "unload_keeps_state = ExamplePlugin_vtable\<lparr>Unload := (\<lambda>p. p)\<rparr>"

text \<open>A plugin written as \<^verbatim>\<open>ExamplePlugin\<close> but for one method: its \<^verbatim>\<open>Load\<close> does the
  work of \<^verbatim>\<open>Initialize\<close> as well and ends in \<^verbatim>\<open>INITIALIZED\<close>. \<open>self_initialized_manager\<close>
  holds one such plugin, loaded.\<close>

definition initializes_in_load :: "(ExamplePlugin, string) IPlugin" where
  "initializes_in_load =
     ExamplePlugin_vtable\<lparr>Load := (\<lambda>p. (True, (p\<lparr>m_state := LOADING\<rparr>)\<lparr>m_state := INITIALIZED\<rparr>))\<rparr>"

definition self_initialized_manager :: "(ExamplePlugin, string) PluginManager" where
  "self_initialized_manager =
     loaded_from (example_platform dispatch_files) initializes_in_load [''/plugins/A'']"

section \<open>Reachable states\<close>

text \<open>The states of the manager that the administrative operations produce from the
  freshly constructed one: each operation that returns gives a new state.\<close>

inductive reachable ::
  "('p, 'h) platform \<Rightarrow> ('p, 'h) IPlugin \<Rightarrow> ('p, 'h) PluginManager \<Rightarrow> bool"
  for pf :: "('p, 'h) platform" and vt :: "('p, 'h) IPlugin"
where
  reach_new: "reachable pf vt new_PluginManager"
| reach_load:
    "reachable pf vt m \<Longrightarrow> LoadPlugin pf vt path m = Inr (ok, m') \<Longrightarrow> reachable pf vt m'"
| reach_initialize:
    "reachable pf vt m \<Longrightarrow> InitializePlugin vt pluginName m = Inr (ok, m') \<Longrightarrow>
       reachable pf vt m'"
| reach_start: "reachable pf vt m \<Longrightarrow> reachable pf vt (StartAllPlugins pf vt m)"
| reach_stop: "reachable pf vt m \<Longrightarrow> reachable pf vt (StopAllPlugins pf vt m)"
| reach_unload:
    "reachable pf vt m \<Longrightarrow> UnloadPlugin pf vt pluginName m = Inr (ok, m') \<Longrightarrow>
       reachable pf vt m'"

text \<open>A well-formed plugin table: one entry per key, each with an instance and a bound
  module.\<close>

definition entries_ok :: "(string \<times> 'p LoadedPlugin) list \<Rightarrow> bool" where
  "entries_ok al =
     (distinct (map fst al) \<and>
      (\<forall>(n, lp) \<in> set al. plugin lp \<noteq> None \<and> handle lp \<noteq> None))"

section \<open>Properties of the dependency resolution\<close>


lemma ResolveDependencies_Suc:
  "ResolveDependencies (Suc n) vt m p lo =
     (case declared_deps vt m p of
        None \<Rightarrow> Some (False, lo)
      | Some ds \<Rightarrow>
          (case ResolveDependencies_loop n vt m ds lo of
             None \<Rightarrow> None
           | Some (ok, l) \<Rightarrow> if ok then Some (True, l @ [p]) else Some (False, l)))"
  by (simp add: declared_deps_def split: option.splits)

lemma common_bound:
  assumes "\<forall>d \<in> set ds. \<exists>N. \<forall>k \<ge> N. P d (k::nat)"
  shows "\<exists>N. \<forall>d \<in> set ds. \<forall>k \<ge> N. P d k"
  using assms
proof (induction ds)
  case Nil
  then show ?case by simp
next
  case (Cons d ds)
  then obtain N1 where N1: "\<forall>x \<in> set ds. \<forall>k \<ge> N1. P x k" by auto
  from Cons.prems obtain N2 where N2: "\<forall>k \<ge> N2. P d k" by auto
  have "\<forall>x \<in> set (d # ds). \<forall>k \<ge> max N1 N2. P x k"
    using N1 N2 by auto
  then show ?case by blast
qed

lemma dep_ordered_snoc:
  assumes "dep_ordered vt m lo" "declared_deps vt m p = Some ds" "set ds \<subseteq> set lo"
    "p \<notin> set lo"
  shows "dep_ordered vt m (lo @ [p])"
  unfolding dep_ordered_def
proof (intro allI impI)
  fix i assume i: "i < length (lo @ [p])"
  show "\<exists>ds. declared_deps vt m ((lo @ [p]) ! i) = Some ds \<and>
          set ds \<subseteq> set (take i (lo @ [p])) \<and> (lo @ [p]) ! i \<notin> set (take i (lo @ [p]))"
  proof (cases "i < length lo")
    case True
    with assms(1) show ?thesis
      by (auto simp: dep_ordered_def nth_append)
  next
    case False
    with i have "i = length lo" by simp
    with assms show ?thesis by simp
  qed
qed

lemma dep_ordered_Nil: "dep_ordered vt m []"
  by (simp add: dep_ordered_def)

lemma dep_ordered_registered:
  "dep_ordered vt m lo \<Longrightarrow> x \<in> set lo \<Longrightarrow> declared_deps vt m x \<noteq> None"
  by (auto simp: dep_ordered_def in_set_conv_nth)

lemma dep_ordered_distinct: "dep_ordered vt m lo \<Longrightarrow> distinct lo"
  by (auto simp: dep_ordered_def distinct_conv_nth in_set_conv_nth) (metis nat_neq_iff)


lemma loop_ok:
  assumes node: "\<forall>d \<in> set ds. \<forall>k \<ge> N. \<forall>lo. d \<notin> set lo \<longrightarrow>
      (\<exists>new. ResolveDependencies k vt m d lo = Some (True, lo @ new @ [d]) \<and>
         set new \<subseteq> {x. (x, d) \<in> (dep_rel vt m)\<^sup>+} \<and>
         (dep_ordered vt m lo \<longrightarrow> dep_ordered vt m (lo @ new @ [d])))"
    and k: "k \<ge> N"
  shows "\<exists>new. ResolveDependencies_loop k vt m ds lo = Some (True, lo @ new) \<and>
      set new \<subseteq> {x. \<exists>d \<in> set ds. (x, d) \<in> (dep_rel vt m)\<^sup>*} \<and>
      set ds \<subseteq> set (lo @ new) \<and>
      (dep_ordered vt m lo \<longrightarrow> dep_ordered vt m (lo @ new))"
  using node
proof (induction ds arbitrary: lo)
  case Nil
  show ?case by simp
next
  case (Cons d ds)
  have rest: "\<And>l. \<exists>new. ResolveDependencies_loop k vt m ds l = Some (True, l @ new) \<and>
      set new \<subseteq> {x. \<exists>d \<in> set ds. (x, d) \<in> (dep_rel vt m)\<^sup>*} \<and>
      set ds \<subseteq> set (l @ new) \<and>
      (dep_ordered vt m l \<longrightarrow> dep_ordered vt m (l @ new))"
    using Cons.IH Cons.prems by simp
  show ?case
  proof (cases "d \<in> set lo")
    case True
    from rest[of lo] obtain new where
      n: "ResolveDependencies_loop k vt m ds lo = Some (True, lo @ new)"
         "set new \<subseteq> {x. \<exists>d \<in> set ds. (x, d) \<in> (dep_rel vt m)\<^sup>*}"
         "set ds \<subseteq> set (lo @ new)"
         "dep_ordered vt m lo \<longrightarrow> dep_ordered vt m (lo @ new)"
      by blast
    show ?thesis
      apply (rule exI[of _ new])
      using True n by auto
  next
    case False
    from Cons.prems k False obtain new1 where
      n1: "ResolveDependencies k vt m d lo = Some (True, lo @ new1 @ [d])"
          "set new1 \<subseteq> {x. (x, d) \<in> (dep_rel vt m)\<^sup>+}"
          "dep_ordered vt m lo \<longrightarrow> dep_ordered vt m (lo @ new1 @ [d])"
      by (metis list.set_intros(1))
    from rest[of "lo @ new1 @ [d]"] obtain new2 where
      n2: "ResolveDependencies_loop k vt m ds (lo @ new1 @ [d]) = Some (True, (lo @ new1 @ [d]) @ new2)"
          "set new2 \<subseteq> {x. \<exists>d \<in> set ds. (x, d) \<in> (dep_rel vt m)\<^sup>*}"
          "set ds \<subseteq> set ((lo @ new1 @ [d]) @ new2)"
          "dep_ordered vt m (lo @ new1 @ [d]) \<longrightarrow> dep_ordered vt m ((lo @ new1 @ [d]) @ new2)"
      by blast
    have sub: "set (new1 @ [d] @ new2) \<subseteq> {x. \<exists>e \<in> set (d # ds). (x, e) \<in> (dep_rel vt m)\<^sup>*}"
      using n1(2) n2(2) by auto
    show ?thesis
      apply (rule exI[of _ "new1 @ [d] @ new2"])
      using False n1 n2 sub by auto
  qed
qed

lemma finite_dep_rel: "finite (dep_rel vt m)"
proof -
  have "dep_rel vt m \<subseteq>
      (\<Union>(n, lp) \<in> set (loadedPlugins m).
         (case plugin lp of None \<Rightarrow> {} | Some p \<Rightarrow> set (GetDependencies vt p) \<times> {n}))"
  proof
    fix e assume "e \<in> dep_rel vt m"
    then obtain d n ds where e: "e = (d, n)" "declared_deps vt m n = Some ds" "d \<in> set ds"
      by (auto simp: dep_rel_def)
    then obtain lp p where lp: "map_of (loadedPlugins m) n = Some lp" "plugin lp = Some p"
        "GetDependencies vt p = ds"
      by (auto simp: declared_deps_def GetPlugin_def split: option.splits)
    from lp(1) have "(n, lp) \<in> set (loadedPlugins m)" by (rule map_of_SomeD)
    then show "e \<in> (\<Union>(n, lp) \<in> set (loadedPlugins m).
         (case plugin lp of None \<Rightarrow> {} | Some p \<Rightarrow> set (GetDependencies vt p) \<times> {n}))"
      using e lp by force
  qed
  moreover have "finite \<dots>"
    by (auto split: option.splits)
  ultimately show ?thesis by (rule finite_subset)
qed

lemma resolve_ok:
  assumes ac: "acyclic (dep_rel vt m)" and reg: "deps_registered vt m"
  shows "declared_deps vt m p \<noteq> None \<Longrightarrow>
     \<exists>N. \<forall>k \<ge> N. \<forall>lo. p \<notin> set lo \<longrightarrow>
      (\<exists>new. ResolveDependencies k vt m p lo = Some (True, lo @ new @ [p]) \<and>
         set new \<subseteq> {x. (x, p) \<in> (dep_rel vt m)\<^sup>+} \<and>
         (dep_ordered vt m lo \<longrightarrow> dep_ordered vt m (lo @ new @ [p])))"
proof -
  have wf: "wf (dep_rel vt m)"
    using finite_dep_rel ac by (rule finite_acyclic_wf)
  show "declared_deps vt m p \<noteq> None \<Longrightarrow> ?thesis"
    using wf
  proof (induction p rule: wf_induct_rule)
    case (less p)
    from less.prems obtain ds where ds: "declared_deps vt m p = Some ds" by auto
    have edges: "\<forall>d \<in> set ds. (d, p) \<in> dep_rel vt m"
      using ds by (auto simp: dep_rel_def)
    have "\<forall>d \<in> set ds. \<exists>N. \<forall>k \<ge> N. \<forall>lo. d \<notin> set lo \<longrightarrow>
      (\<exists>new. ResolveDependencies k vt m d lo = Some (True, lo @ new @ [d]) \<and>
         set new \<subseteq> {x. (x, d) \<in> (dep_rel vt m)\<^sup>+} \<and>
         (dep_ordered vt m lo \<longrightarrow> dep_ordered vt m (lo @ new @ [d])))"
    proof
      fix d assume d: "d \<in> set ds"
      with edges have e: "(d, p) \<in> dep_rel vt m" by blast
      with reg have "declared_deps vt m d \<noteq> None"
        unfolding deps_registered_def by blast
      from less.IH[OF e this] show "\<exists>N. \<forall>k \<ge> N. \<forall>lo. d \<notin> set lo \<longrightarrow>
        (\<exists>new. ResolveDependencies k vt m d lo = Some (True, lo @ new @ [d]) \<and>
         set new \<subseteq> {x. (x, d) \<in> (dep_rel vt m)\<^sup>+} \<and>
         (dep_ordered vt m lo \<longrightarrow> dep_ordered vt m (lo @ new @ [d])))" .
    qed
    from common_bound[OF this] obtain N where
      N: "\<forall>d \<in> set ds. \<forall>k \<ge> N. \<forall>lo. d \<notin> set lo \<longrightarrow>
      (\<exists>new. ResolveDependencies k vt m d lo = Some (True, lo @ new @ [d]) \<and>
         set new \<subseteq> {x. (x, d) \<in> (dep_rel vt m)\<^sup>+} \<and>
         (dep_ordered vt m lo \<longrightarrow> dep_ordered vt m (lo @ new @ [d])))"
      by blast
    have "\<forall>k \<ge> Suc N. \<forall>lo. p \<notin> set lo \<longrightarrow>
      (\<exists>new. ResolveDependencies k vt m p lo = Some (True, lo @ new @ [p]) \<and>
         set new \<subseteq> {x. (x, p) \<in> (dep_rel vt m)\<^sup>+} \<and>
         (dep_ordered vt m lo \<longrightarrow> dep_ordered vt m (lo @ new @ [p])))"
    proof (intro allI impI)
      fix k lo assume k: "Suc N \<le> k" and p: "p \<notin> set lo"
      then obtain k' where k': "k = Suc k'" "N \<le> k'" by (cases k) auto
      from loop_ok[OF N k'(2), of lo] obtain new where
        n: "ResolveDependencies_loop k' vt m ds lo = Some (True, lo @ new)"
           "set new \<subseteq> {x. \<exists>d \<in> set ds. (x, d) \<in> (dep_rel vt m)\<^sup>*}"
           "set ds \<subseteq> set (lo @ new)"
           "dep_ordered vt m lo \<longrightarrow> dep_ordered vt m (lo @ new)"
        by blast
      have sub: "set new \<subseteq> {x. (x, p) \<in> (dep_rel vt m)\<^sup>+}"
        using n(2) edges by (auto intro: rtrancl_into_trancl1)
      have "(p, p) \<notin> (dep_rel vt m)\<^sup>+"
        using ac by (simp add: acyclic_def)
      with sub p have pn: "p \<notin> set (lo @ new)" by auto
      have "dep_ordered vt m lo \<longrightarrow> dep_ordered vt m ((lo @ new) @ [p])"
        using n(4) dep_ordered_snoc[OF _ ds n(3) pn] by blast
      with n(1) sub show "\<exists>new. ResolveDependencies k vt m p lo = Some (True, lo @ new @ [p]) \<and>
         set new \<subseteq> {x. (x, p) \<in> (dep_rel vt m)\<^sup>+} \<and>
         (dep_ordered vt m lo \<longrightarrow> dep_ordered vt m (lo @ new @ [p]))"
        by (auto simp: k' ResolveDependencies_Suc ds simp del: ResolveDependencies.simps)
    qed
    then show ?case by blast
  qed
qed


lemma top_loop_ok:
  assumes node: "\<forall>x \<in> set xs. \<forall>k \<ge> N. \<forall>lo. x \<notin> set lo \<longrightarrow>
      (\<exists>new. ResolveDependencies k vt m x lo = Some (True, lo @ new @ [x]) \<and>
         set new \<subseteq> {y. (y, x) \<in> (dep_rel vt m)\<^sup>+} \<and>
         (dep_ordered vt m lo \<longrightarrow> dep_ordered vt m (lo @ new @ [x])))"
    and k: "k \<ge> N"
  shows "dep_ordered vt m lo \<Longrightarrow>
     \<exists>lo'. GetPluginLoadOrder_loop k vt m xs lo = Some lo' \<and> dep_ordered vt m lo' \<and>
        set xs \<union> set lo \<subseteq> set lo'"
  using node
proof (induction xs arbitrary: lo)
  case Nil
  then show ?case by simp
next
  case (Cons x xs)
  have rest: "\<And>l. dep_ordered vt m l \<Longrightarrow>
     \<exists>lo'. GetPluginLoadOrder_loop k vt m xs l = Some lo' \<and> dep_ordered vt m lo' \<and>
        set xs \<union> set l \<subseteq> set lo'"
    using Cons.IH Cons.prems(2) by simp
  show ?case
  proof (cases "x \<in> set lo")
    case True
    from rest[OF Cons.prems(1)] True show ?thesis by auto
  next
    case False
    from Cons.prems(2) k False Cons.prems(1) obtain new where
      n: "ResolveDependencies k vt m x lo = Some (True, lo @ new @ [x])"
         "dep_ordered vt m (lo @ new @ [x])"
      by (metis list.set_intros(1))
    from rest[OF n(2)] obtain lo' where
      "GetPluginLoadOrder_loop k vt m xs (lo @ new @ [x]) = Some lo'" "dep_ordered vt m lo'"
      "set xs \<union> set (lo @ new @ [x]) \<subseteq> set lo'"
      by blast
    with False n(1) show ?thesis by auto
  qed
qed

lemma keys_registered:
  assumes "instances_present m" "x \<in> set (map fst (loadedPlugins m))"
  shows "declared_deps vt m x \<noteq> None"
proof -
  from assms(2) obtain lp where "map_of (loadedPlugins m) x = Some lp"
    by (metis map_of_eq_None_iff not_Some_eq set_map)
  moreover from this have "(x, lp) \<in> set (loadedPlugins m)" by (rule map_of_SomeD)
  with assms(1) have "plugin lp \<noteq> None" by (auto simp: instances_present_def)
  ultimately show ?thesis by (auto simp: declared_deps_def GetPlugin_def)
qed

lemma registered_is_key:
  "declared_deps vt m x \<noteq> None \<Longrightarrow> x \<in> set (map fst (loadedPlugins m))"
  by (auto simp: declared_deps_def GetPlugin_def split: option.splits dest!: map_of_SomeD) force

lemma all_resolve_ok:
  assumes ac: "acyclic (dep_rel vt m)" and reg: "deps_registered vt m"
  shows "\<exists>N. \<forall>x \<in> set (map fst (loadedPlugins m)). \<forall>k \<ge> N.
      declared_deps vt m x \<noteq> None \<longrightarrow> (\<forall>lo. x \<notin> set lo \<longrightarrow>
      (\<exists>new. ResolveDependencies k vt m x lo = Some (True, lo @ new @ [x]) \<and>
         set new \<subseteq> {y. (y, x) \<in> (dep_rel vt m)\<^sup>+} \<and>
         (dep_ordered vt m lo \<longrightarrow> dep_ordered vt m (lo @ new @ [x]))))"
proof (rule common_bound, rule ballI)
  fix x assume "x \<in> set (map fst (loadedPlugins m))"
  show "\<exists>N. \<forall>k \<ge> N. declared_deps vt m x \<noteq> None \<longrightarrow> (\<forall>lo. x \<notin> set lo \<longrightarrow>
      (\<exists>new. ResolveDependencies k vt m x lo = Some (True, lo @ new @ [x]) \<and>
         set new \<subseteq> {y. (y, x) \<in> (dep_rel vt m)\<^sup>+} \<and>
         (dep_ordered vt m lo \<longrightarrow> dep_ordered vt m (lo @ new @ [x]))))"
  proof (cases "declared_deps vt m x = None")
    case True
    then show ?thesis by simp
  next
    case False
    from resolve_ok[OF ac reg False] show ?thesis by blast
  qed
qed

lemma dep_ordered_before:
  assumes "dep_ordered vt m lo" "i < length lo" "declared_deps vt m (lo ! i) = Some ds" "d \<in> set ds"
  shows "\<exists>j < i. lo ! j = d"
proof -
  from assms(1,2) obtain ds' where "declared_deps vt m (lo ! i) = Some ds'"
      "set ds' \<subseteq> set (take i lo)"
    unfolding dep_ordered_def by blast
  with assms(3,4) have "d \<in> set (take i lo)" by auto
  then obtain j where "j < length (take i lo)" "take i lo ! j = d"
    by (auto simp: in_set_conv_nth)
  then show ?thesis by auto
qed

lemma load_order_total:
  assumes ac: "acyclic (dep_rel vt m)" and reg: "deps_registered vt m"
    and inst: "instances_present m" and it: "visits_each_once pf"
  shows "\<exists>N. \<forall>k \<ge> N. \<exists>lo. GetPluginLoadOrder k pf vt m = Some lo \<and> dep_ordered vt m lo \<and>
      set lo = set (map fst (loadedPlugins m))"
proof -
  let ?keys = "map fst (loadedPlugins m)"
  from all_resolve_ok[OF ac reg] obtain N where
    N: "\<forall>x \<in> set ?keys. \<forall>k \<ge> N.
      declared_deps vt m x \<noteq> None \<longrightarrow> (\<forall>lo. x \<notin> set lo \<longrightarrow>
      (\<exists>new. ResolveDependencies k vt m x lo = Some (True, lo @ new @ [x]) \<and>
         set new \<subseteq> {y. (y, x) \<in> (dep_rel vt m)\<^sup>+} \<and>
         (dep_ordered vt m lo \<longrightarrow> dep_ordered vt m (lo @ new @ [x]))))"
    by blast
  have names: "set (GetLoadedPluginNames pf m) = set ?keys"
    using it by (metis GetLoadedPluginNames_def visits_each_once_def set_mset_mset)
  have node: "\<forall>x \<in> set (GetLoadedPluginNames pf m). \<forall>k \<ge> N. \<forall>lo. x \<notin> set lo \<longrightarrow>
      (\<exists>new. ResolveDependencies k vt m x lo = Some (True, lo @ new @ [x]) \<and>
         set new \<subseteq> {y. (y, x) \<in> (dep_rel vt m)\<^sup>+} \<and>
         (dep_ordered vt m lo \<longrightarrow> dep_ordered vt m (lo @ new @ [x])))"
    using N names keys_registered[OF inst] by blast
  have "\<forall>k \<ge> N. \<exists>lo. GetPluginLoadOrder k pf vt m = Some lo \<and> dep_ordered vt m lo \<and>
      set lo = set ?keys"
  proof (intro allI impI)
    fix k assume k: "N \<le> k"
    from top_loop_ok[OF node k dep_ordered_Nil] obtain lo where
      lo: "GetPluginLoadOrder_loop k vt m (GetLoadedPluginNames pf m) [] = Some lo"
        "dep_ordered vt m lo" "set (GetLoadedPluginNames pf m) \<union> set [] \<subseteq> set lo"
      by blast
    have "set lo \<subseteq> set ?keys"
      using dep_ordered_registered[OF lo(2)] registered_is_key by blast
    with lo names show "\<exists>lo. GetPluginLoadOrder k pf vt m = Some lo \<and> dep_ordered vt m lo \<and>
      set lo = set ?keys"
      by (auto simp: GetPluginLoadOrder_def)
  qed
  then show ?thesis by blast
qed


lemma loop_append:
  "ResolveDependencies_loop k vt m (ds1 @ ds2) lo =
     (case ResolveDependencies_loop k vt m ds1 lo of
        None \<Rightarrow> None
      | Some (ok, l) \<Rightarrow> if ok then ResolveDependencies_loop k vt m ds2 l else Some (False, l))"
  by (induction ds1 arbitrary: lo) (auto split: option.splits)

lemma siblings_in_order:
  assumes node: "\<forall>d \<in> set ds. \<forall>k \<ge> N. \<forall>lo. d \<notin> set lo \<longrightarrow>
      (\<exists>new. ResolveDependencies k vt m d lo = Some (True, lo @ new @ [d]) \<and>
         set new \<subseteq> {x. (x, d) \<in> (dep_rel vt m)\<^sup>+} \<and>
         (dep_ordered vt m lo \<longrightarrow> dep_ordered vt m (lo @ new @ [d])))"
    and k: "k \<ge> N"
    and ds: "declared_deps vt m p = Some ds"
    and ij: "i < j" "j < length ds"
    and fresh: "ds ! j \<notin> set lo"
    and unreach: "\<forall>i' \<le> i. (ds ! j, ds ! i') \<notin> (dep_rel vt m)\<^sup>*"
  shows "\<exists>a b c. ResolveDependencies (Suc k) vt m p lo =
           Some (True, a @ ds ! i # b @ ds ! j # c @ [p])"
proof -
  let ?ds1 = "take (Suc i) ds" and ?ds2 = "drop (Suc i) ds"
  have split: "ds = ?ds1 @ ?ds2" by simp
  have node1: "\<forall>d \<in> set ?ds1. \<forall>k \<ge> N. \<forall>lo. d \<notin> set lo \<longrightarrow>
      (\<exists>new. ResolveDependencies k vt m d lo = Some (True, lo @ new @ [d]) \<and>
         set new \<subseteq> {x. (x, d) \<in> (dep_rel vt m)\<^sup>+} \<and>
         (dep_ordered vt m lo \<longrightarrow> dep_ordered vt m (lo @ new @ [d])))"
    using node by (meson in_set_takeD)
  have node2: "\<forall>d \<in> set ?ds2. \<forall>k \<ge> N. \<forall>lo. d \<notin> set lo \<longrightarrow>
      (\<exists>new. ResolveDependencies k vt m d lo = Some (True, lo @ new @ [d]) \<and>
         set new \<subseteq> {x. (x, d) \<in> (dep_rel vt m)\<^sup>+} \<and>
         (dep_ordered vt m lo \<longrightarrow> dep_ordered vt m (lo @ new @ [d])))"
    using node by (meson in_set_dropD)
  from loop_ok[OF node1 k, of lo] obtain new1 where
    n1: "ResolveDependencies_loop k vt m ?ds1 lo = Some (True, lo @ new1)"
        "set new1 \<subseteq> {x. \<exists>d \<in> set ?ds1. (x, d) \<in> (dep_rel vt m)\<^sup>*}"
        "set ?ds1 \<subseteq> set (lo @ new1)"
    by blast
  from loop_ok[OF node2 k, of "lo @ new1"] obtain new2 where
    n2: "ResolveDependencies_loop k vt m ?ds2 (lo @ new1) = Some (True, (lo @ new1) @ new2)"
        "set ?ds2 \<subseteq> set ((lo @ new1) @ new2)"
    by blast
  have whole: "ResolveDependencies_loop k vt m ds lo = Some (True, (lo @ new1) @ new2)"
    by (subst split, subst loop_append) (simp add: n1(1) n2(1))
  have "ds ! i \<in> set ?ds1"
    using ij by (auto simp: in_set_conv_nth intro!: exI[of _ i])
  with n1(3) have i_in: "ds ! i \<in> set (lo @ new1)" by blast
  have "ds ! j \<notin> set new1"
  proof
    assume "ds ! j \<in> set new1"
    with n1(2) obtain d where d: "d \<in> set ?ds1" "(ds ! j, d) \<in> (dep_rel vt m)\<^sup>*" by blast
    from d(1) obtain i' where "i' < Suc i" "i' < length ds" "d = ds ! i'"
      by (auto simp: in_set_conv_nth)
    with d(2) unreach show False by auto
  qed
  with fresh have j_out: "ds ! j \<notin> set (lo @ new1)" by simp
  have "ds ! j \<in> set ?ds2"
    using ij by (auto simp: in_set_conv_nth intro!: exI[of _ "j - Suc i"])
  with n2(2) j_out have "ds ! j \<in> set new2" by auto
  then obtain b2 c where new2: "new2 = b2 @ ds ! j # c" by (auto simp: in_set_conv_decomp)
  from i_in obtain a b1 where pre: "lo @ new1 = a @ ds ! i # b1"
    by (auto simp: in_set_conv_decomp simp del: set_append)
  have "ResolveDependencies (Suc k) vt m p lo =
          Some (True, a @ ds ! i # (b1 @ b2) @ ds ! j # c @ [p])"
    using whole pre new2
    by (simp add: ResolveDependencies_Suc ds del: ResolveDependencies.simps)
  then show ?thesis by blast
qed

lemma deps_closed_snoc:
  assumes "deps_closed vt m l" "declared_deps vt m p = Some ds" "set ds \<subseteq> set l"
  shows "deps_closed vt m (l @ [p])"
  unfolding deps_closed_def
proof
  fix x assume "x \<in> set (l @ [p])"
  then consider "x \<in> set l" | "x = p" by auto
  then show "\<exists>ds. declared_deps vt m x = Some ds \<and> set ds \<subseteq> set (l @ [p])"
  proof cases
    case 1
    with assms(1) obtain ds' where "declared_deps vt m x = Some ds'" "set ds' \<subseteq> set l"
      unfolding deps_closed_def by blast
    then show ?thesis by auto
  next
    case 2
    with assms(2,3) show ?thesis by auto
  qed
qed

lemma closed_preserved:
  "(ResolveDependencies n vt m p lo = Some (ok, lo') \<longrightarrow> deps_closed vt m lo \<longrightarrow>
      deps_closed vt m lo' \<and> set lo \<subseteq> set lo' \<and> (ok \<longrightarrow> p \<in> set lo'))"
  "(ResolveDependencies_loop n vt m ds lo = Some (ok, lo') \<longrightarrow> deps_closed vt m lo \<longrightarrow>
      deps_closed vt m lo' \<and> set lo \<subseteq> set lo' \<and> (ok \<longrightarrow> set ds \<subseteq> set lo'))"
proof (induction n vt m p lo and n vt m ds lo arbitrary: ok lo' and ok lo'
    rule: ResolveDependencies_ResolveDependencies_loop.induct)
  case (1 vt m pluginName loadOrder)
  show ?case by simp
next
  case (2 n vt m pluginName loadOrder)
  show ?case
  proof (intro impI)
    assume r: "ResolveDependencies (Suc n) vt m pluginName loadOrder = Some (ok, lo')"
      and c: "deps_closed vt m loadOrder"
    show "deps_closed vt m lo' \<and> set loadOrder \<subseteq> set lo' \<and> (ok \<longrightarrow> pluginName \<in> set lo')"
    proof (cases "GetPlugin m pluginName")
      case None
      with r c show ?thesis by auto
    next
      case (Some p)
      then have dd: "declared_deps vt m pluginName = Some (GetDependencies vt p)"
        by (simp add: declared_deps_def)
      from r Some obtain ok1 l where
        l: "ResolveDependencies_loop n vt m (GetDependencies vt p) loadOrder = Some (ok1, l)"
        by (auto split: option.splits)
      from "2.IH"[OF Some, of ok1 l] l c have
        ih: "deps_closed vt m l" "set loadOrder \<subseteq> set l"
            "ok1 \<longrightarrow> set (GetDependencies vt p) \<subseteq> set l"
        by auto
      show ?thesis
      proof (cases ok1)
        case True
        with r Some l have "ok" "lo' = l @ [pluginName]" by auto
        moreover have "deps_closed vt m (l @ [pluginName])"
          using deps_closed_snoc[OF ih(1) dd] ih(3) True by blast
        ultimately show ?thesis using ih by auto
      next
        case False
        with r Some l have "\<not> ok" "lo' = l" by auto
        then show ?thesis using ih by auto
      qed
    qed
  qed
next
  case (3 n vt m loadOrder)
  show ?case by auto
next
  case (4 n vt m d ds loadOrder)
  show ?case
  proof (intro impI)
    assume r: "ResolveDependencies_loop n vt m (d # ds) loadOrder = Some (ok, lo')"
      and c: "deps_closed vt m loadOrder"
    show "deps_closed vt m lo' \<and> set loadOrder \<subseteq> set lo' \<and> (ok \<longrightarrow> set (d # ds) \<subseteq> set lo')"
    proof (cases "d \<in> set loadOrder")
      case True
      with r have "ResolveDependencies_loop n vt m ds loadOrder = Some (ok, lo')" by simp
      with "4.IH"(1)[OF True, of ok lo'] c True show ?thesis by auto
    next
      case False
      with r obtain ok1 l where
        l: "ResolveDependencies n vt m d loadOrder = Some (ok1, l)"
        by (auto split: option.splits)
      from "4.IH"(2)[OF False, of ok1 l] l c have
        ih: "deps_closed vt m l" "set loadOrder \<subseteq> set l" "ok1 \<longrightarrow> d \<in> set l"
        by auto
      show ?thesis
      proof (cases ok1)
        case True
        with r False l have "ResolveDependencies_loop n vt m ds l = Some (ok, lo')" by simp
        with "4.IH"(3)[OF False l refl True, of ok lo'] ih True show ?thesis by auto
      next
        case False2: False
        with r False l have "\<not> ok" "lo' = l" by auto
        then show ?thesis using ih by auto
      qed
    qed
  qed
qed


lemma loop_terminates:
  assumes node: "\<forall>d \<in> set ds. \<forall>k \<ge> N. \<forall>lo. \<exists>r. ResolveDependencies k vt m d lo = Some r"
    and k: "k \<ge> N"
  shows "\<exists>r. ResolveDependencies_loop k vt m ds lo = Some r"
  using node
proof (induction ds arbitrary: lo)
  case Nil
  show ?case by auto
next
  case (Cons d ds)
  have rest: "\<And>l. \<exists>r. ResolveDependencies_loop k vt m ds l = Some r"
    using Cons.IH Cons.prems by simp
  from Cons.prems k obtain ok l where "ResolveDependencies k vt m d lo = Some (ok, l)"
    by (metis list.set_intros(1) surj_pair)
  with rest[of lo] rest[of l] show ?case by auto
qed

lemma resolve_terminates:
  assumes ac: "acyclic (dep_rel vt m)"
  shows "\<exists>N. \<forall>k \<ge> N. \<forall>lo. \<exists>r. ResolveDependencies k vt m p lo = Some r"
proof -
  have wf: "wf (dep_rel vt m)"
    using finite_dep_rel ac by (rule finite_acyclic_wf)
  then show ?thesis
  proof (induction p rule: wf_induct_rule)
    case (less p)
    show ?case
    proof (cases "declared_deps vt m p")
      case None
      have "\<forall>k \<ge> Suc 0. \<forall>lo. \<exists>r. ResolveDependencies k vt m p lo = Some r"
      proof (intro allI impI)
        fix k lo assume "Suc 0 \<le> k"
        then obtain k' where "k = Suc k'" by (cases k) auto
        then show "\<exists>r. ResolveDependencies k vt m p lo = Some r"
          by (auto simp add: ResolveDependencies_Suc None simp del: ResolveDependencies.simps)
      qed
      then show ?thesis by blast
    next
      case (Some ds)
      then have "\<forall>d \<in> set ds. (d, p) \<in> dep_rel vt m"
        by (auto simp: dep_rel_def)
      with less.IH have
        "\<forall>d \<in> set ds. \<exists>N. \<forall>k \<ge> N. \<forall>lo. \<exists>r. ResolveDependencies k vt m d lo = Some r"
        by blast
      from common_bound[OF this] obtain N where
        N: "\<forall>d \<in> set ds. \<forall>k \<ge> N. \<forall>lo. \<exists>r. ResolveDependencies k vt m d lo = Some r"
        by blast
      have "\<forall>k \<ge> Suc N. \<forall>lo. \<exists>r. ResolveDependencies k vt m p lo = Some r"
      proof (intro allI impI)
        fix k lo assume "Suc N \<le> k"
        then obtain k' where k': "k = Suc k'" "N \<le> k'" by (cases k) auto
        from loop_terminates[OF N k'(2), of lo] obtain ok l where
          "ResolveDependencies_loop k' vt m ds lo = Some (ok, l)" by auto
        then show "\<exists>r. ResolveDependencies k vt m p lo = Some r"
          by (auto simp add: k' ResolveDependencies_Suc Some simp del: ResolveDependencies.simps)
      qed
      then show ?thesis by blast
    qed
  qed
qed

lemma top_loop_terminates:
  assumes node: "\<forall>x \<in> set xs. \<forall>k \<ge> N. \<forall>lo. \<exists>r. ResolveDependencies k vt m x lo = Some r"
    and k: "k \<ge> N"
  shows "\<exists>lo'. GetPluginLoadOrder_loop k vt m xs lo = Some lo'"
  using node
proof (induction xs arbitrary: lo)
  case Nil
  show ?case by simp
next
  case (Cons x xs)
  have rest: "\<And>l. \<exists>lo'. GetPluginLoadOrder_loop k vt m xs l = Some lo'"
    using Cons.IH Cons.prems by simp
  from Cons.prems k obtain ok l where "ResolveDependencies k vt m x lo = Some (ok, l)"
    by (metis list.set_intros(1) surj_pair)
  with rest[of lo] rest[of l] show ?case by auto
qed

lemma top_loop_closed:
  "GetPluginLoadOrder_loop k vt m xs lo = Some lo' \<Longrightarrow> deps_closed vt m lo \<Longrightarrow>
     deps_closed vt m lo'"
proof (induction xs arbitrary: lo)
  case Nil
  then show ?case by simp
next
  case (Cons x xs)
  show ?case
  proof (cases "x \<in> set lo")
    case True
    with Cons show ?thesis by simp
  next
    case False
    with Cons.prems(1) obtain ok l where
      l: "ResolveDependencies k vt m x lo = Some (ok, l)"
         "GetPluginLoadOrder_loop k vt m xs l = Some lo'"
      by (auto split: option.splits)
    from closed_preserved(1)[of k vt m x lo ok l] l(1) Cons.prems(2)
    have "deps_closed vt m l" by blast
    with Cons.IH l(2) show ?thesis by blast
  qed
qed

lemma missing_dep_not_closed:
  assumes "declared_deps vt m p = Some ds" "d \<in> set ds" "declared_deps vt m d = None"
    "deps_closed vt m lo"
  shows "p \<notin> set lo"
proof
  assume "p \<in> set lo"
  with assms(4) obtain ds' where "declared_deps vt m p = Some ds'" "set ds' \<subseteq> set lo"
    unfolding deps_closed_def by blast
  with assms(1,2) have "d \<in> set lo" by auto
  with assms(4) have "declared_deps vt m d \<noteq> None"
    unfolding deps_closed_def by fastforce
  with assms(3) show False by simp
qed

text \<open>
  C3, amended. When the dependency graph is acyclic and a registered plugin \<open>p\<close> declares
  a dependency \<open>d\<close> that matches no registered plugin, then for every recursion bound that
  is large enough \<^verbatim>\<open>ResolveDependencies\<close> returns \<^verbatim>\<open>false\<close> for \<open>p\<close>, and
  \<^verbatim>\<open>GetPluginLoadOrder\<close> returns normally a sequence that does not contain \<open>p\<close>.
\<close>

theorem missing_dependency_omitted:
  assumes ac: "acyclic (dep_rel vt m)"
    and p: "declared_deps vt m p = Some ds" and d: "d \<in> set ds"
    and miss: "declared_deps vt m d = None"
  shows "\<exists>N. \<forall>k \<ge> N.
      (\<exists>lo. ResolveDependencies k vt m p [] = Some (False, lo)) \<and>
      (\<exists>lo. GetPluginLoadOrder k pf vt m = Some lo \<and> p \<notin> set lo)"
proof -
  have cl: "deps_closed vt m []" by (simp add: deps_closed_def)
  have "\<forall>x \<in> set (p # GetLoadedPluginNames pf m).
      \<exists>N. \<forall>k \<ge> N. \<forall>lo. \<exists>r. ResolveDependencies k vt m x lo = Some r"
    using resolve_terminates[OF ac] by blast
  from common_bound[OF this] obtain N where
    N: "\<forall>x \<in> set (p # GetLoadedPluginNames pf m).
      \<forall>k \<ge> N. \<forall>lo. \<exists>r. ResolveDependencies k vt m x lo = Some r"
    by blast
  have "\<forall>k \<ge> N.
      (\<exists>lo. ResolveDependencies k vt m p [] = Some (False, lo)) \<and>
      (\<exists>lo. GetPluginLoadOrder k pf vt m = Some lo \<and> p \<notin> set lo)"
  proof (intro allI impI conjI)
    fix k assume k: "N \<le> k"
    from N k obtain ok lo where r: "ResolveDependencies k vt m p [] = Some (ok, lo)"
      by (metis list.set_intros(1) surj_pair)
    from closed_preserved(1)[of k vt m p "[]" ok lo] r cl
    have "deps_closed vt m lo" "ok \<longrightarrow> p \<in> set lo" by auto
    with missing_dep_not_closed[OF p d miss] have "\<not> ok" by blast
    with r show "\<exists>lo. ResolveDependencies k vt m p [] = Some (False, lo)" by auto
  next
    fix k assume k: "N \<le> k"
    have "\<forall>x \<in> set (GetLoadedPluginNames pf m).
      \<forall>k \<ge> N. \<forall>lo. \<exists>r. ResolveDependencies k vt m x lo = Some r"
      using N by simp
    from top_loop_terminates[OF this k, of "[]"] obtain lo where
      lo: "GetPluginLoadOrder k pf vt m = Some lo"
      by (auto simp: GetPluginLoadOrder_def)
    then have "deps_closed vt m lo"
      using top_loop_closed cl by (auto simp: GetPluginLoadOrder_def)
    with missing_dep_not_closed[OF p d miss] lo
    show "\<exists>lo. GetPluginLoadOrder k pf vt m = Some lo \<and> p \<notin> set lo" by blast
  qed
  then show ?thesis by blast
qed

text \<open>
  C2. When the dependency graph of the registered plugins is acyclic and every declared
  dependency names a registered plugin, \<^verbatim>\<open>GetPluginLoadOrder\<close> returns for every recursion
  bound that is large enough, and the sequence it returns holds every registered name
  once, each name after all its declared dependencies. A visit of one plugin takes its
  dependencies in the order of their declaration: of two dependencies, the one declared
  first stands first in the sequence after the visit, unless the other one was in
  \<^verbatim>\<open>loadOrder\<close> before the visit or is reached from a dependency declared no later than
  the first.
\<close>

theorem load_order_after_dependencies:
  assumes ac: "acyclic (dep_rel vt m)" and reg: "deps_registered vt m"
    and inst: "instances_present m" and it: "visits_each_once pf"
  shows "\<exists>N. \<forall>k \<ge> N.
      (\<exists>lo. GetPluginLoadOrder k pf vt m = Some lo \<and>
         set lo = set (map fst (loadedPlugins m)) \<and> distinct lo \<and>
         (\<forall>i < length lo. \<forall>ds. declared_deps vt m (lo ! i) = Some ds \<longrightarrow>
            (\<forall>d \<in> set ds. \<exists>j < i. lo ! j = d))) \<and>
      (\<forall>p ds lo i j.
         declared_deps vt m p = Some ds \<and> i < j \<and> j < length ds \<and> ds ! j \<notin> set lo \<and>
         (\<forall>i' \<le> i. (ds ! j, ds ! i') \<notin> (dep_rel vt m)\<^sup>*) \<longrightarrow>
         (\<exists>a b c. ResolveDependencies k vt m p lo =
            Some (True, a @ ds ! i # b @ ds ! j # c @ [p])))"
proof -
  from load_order_total[OF ac reg inst it] obtain N1 where
    N1: "\<forall>k \<ge> N1. \<exists>lo. GetPluginLoadOrder k pf vt m = Some lo \<and> dep_ordered vt m lo \<and>
      set lo = set (map fst (loadedPlugins m))"
    by blast
  from all_resolve_ok[OF ac reg] obtain N2 where
    N2: "\<forall>x \<in> set (map fst (loadedPlugins m)). \<forall>k \<ge> N2.
      declared_deps vt m x \<noteq> None \<longrightarrow> (\<forall>lo. x \<notin> set lo \<longrightarrow>
      (\<exists>new. ResolveDependencies k vt m x lo = Some (True, lo @ new @ [x]) \<and>
         set new \<subseteq> {y. (y, x) \<in> (dep_rel vt m)\<^sup>+} \<and>
         (dep_ordered vt m lo \<longrightarrow> dep_ordered vt m (lo @ new @ [x]))))"
    by blast
  have "\<forall>k \<ge> max N1 (Suc N2).
      (\<exists>lo. GetPluginLoadOrder k pf vt m = Some lo \<and>
         set lo = set (map fst (loadedPlugins m)) \<and> distinct lo \<and>
         (\<forall>i < length lo. \<forall>ds. declared_deps vt m (lo ! i) = Some ds \<longrightarrow>
            (\<forall>d \<in> set ds. \<exists>j < i. lo ! j = d))) \<and>
      (\<forall>p ds lo i j.
         declared_deps vt m p = Some ds \<and> i < j \<and> j < length ds \<and> ds ! j \<notin> set lo \<and>
         (\<forall>i' \<le> i. (ds ! j, ds ! i') \<notin> (dep_rel vt m)\<^sup>*) \<longrightarrow>
         (\<exists>a b c. ResolveDependencies k vt m p lo =
            Some (True, a @ ds ! i # b @ ds ! j # c @ [p])))"
  proof (intro allI impI conjI)
    fix k assume k: "max N1 (Suc N2) \<le> k"
    with N1 obtain lo where lo: "GetPluginLoadOrder k pf vt m = Some lo"
        "dep_ordered vt m lo" "set lo = set (map fst (loadedPlugins m))"
      by (meson max.boundedE)
    from lo dep_ordered_distinct[OF lo(2)] dep_ordered_before[OF lo(2)]
    show "\<exists>lo. GetPluginLoadOrder k pf vt m = Some lo \<and>
         set lo = set (map fst (loadedPlugins m)) \<and> distinct lo \<and>
         (\<forall>i < length lo. \<forall>ds. declared_deps vt m (lo ! i) = Some ds \<longrightarrow>
            (\<forall>d \<in> set ds. \<exists>j < i. lo ! j = d))"
      by blast
  next
    fix k p ds lo i j
    assume k: "max N1 (Suc N2) \<le> k"
      and h: "declared_deps vt m p = Some ds \<and> i < j \<and> j < length ds \<and> ds ! j \<notin> set lo \<and>
         (\<forall>i' \<le> i. (ds ! j, ds ! i') \<notin> (dep_rel vt m)\<^sup>*)"
    from k obtain k' where k': "k = Suc k'" "N2 \<le> k'" by (cases k) auto
    have "\<forall>d \<in> set ds. declared_deps vt m d \<noteq> None"
      using reg h unfolding deps_registered_def dep_rel_def by blast
    then have node: "\<forall>d \<in> set ds. \<forall>k \<ge> N2. \<forall>lo. d \<notin> set lo \<longrightarrow>
      (\<exists>new. ResolveDependencies k vt m d lo = Some (True, lo @ new @ [d]) \<and>
         set new \<subseteq> {x. (x, d) \<in> (dep_rel vt m)\<^sup>+} \<and>
         (dep_ordered vt m lo \<longrightarrow> dep_ordered vt m (lo @ new @ [d])))"
      using N2 registered_is_key by blast
    from h have h1: "declared_deps vt m p = Some ds" and h2: "i < j" and h3: "j < length ds"
      and h4: "ds ! j \<notin> set lo" and h5: "\<forall>i' \<le> i. (ds ! j, ds ! i') \<notin> (dep_rel vt m)\<^sup>*"
      by blast+
    from siblings_in_order[OF node k'(2) h1 h2 h3 h4 h5]
    show "\<exists>a b c. ResolveDependencies k vt m p lo =
            Some (True, a @ ds ! i # b @ ds ! j # c @ [p])"
      unfolding k' .
  qed
  then show ?thesis by blast
qed


lemma dep_relD:
  assumes "(d, p) \<in> dep_rel vt m"
  shows "p \<in> set (map fst (loadedPlugins m)) \<and>
         (\<exists>ds. declared_deps vt m p = Some ds \<and> d \<in> set ds)"
proof -
  from assms obtain ds where ds: "declared_deps vt m p = Some ds" "d \<in> set ds"
    by (auto simp: dep_rel_def)
  then have "declared_deps vt m p \<noteq> None" by simp
  from registered_is_key[OF this] ds show ?thesis by blast
qed

lemma cyclic_deps:
  "declared_deps ExamplePlugin_vtable cyclic_manager ''A'' = Some [''B'']"
  "declared_deps ExamplePlugin_vtable cyclic_manager ''B'' = Some [''A'']"
  by code_simp+

lemma cyclic_names:
  "GetLoadedPluginNames (example_platform cyclic_files) cyclic_manager = [''B'', ''A'']"
  by code_simp

lemma cyclic_resolve_None:
  "ResolveDependencies k ExamplePlugin_vtable cyclic_manager ''A'' [] = None \<and>
   ResolveDependencies k ExamplePlugin_vtable cyclic_manager ''B'' [] = None"
proof (induction k)
  case 0
  show ?case by simp
next
  case (Suc k)
  then show ?case
    by (simp add: ResolveDependencies_Suc cyclic_deps del: ResolveDependencies.simps)
qed

text \<open>
  C1 (what the program does instead). Two registered plugins \<open>A\<close> and \<open>B\<close> that declare each
  other as a dependency: whatever depth of recursion is allowed, \<^verbatim>\<open>GetPluginLoadOrder\<close>
  does not return. \<^verbatim>\<open>ResolveDependencies\<close> keeps no record of the names on the current
  traversal, so it reports no cyclic dependency; it recurses without end.
\<close>

theorem cyclic_dependency_never_returns:
  "\<forall>k. GetPluginLoadOrder k (example_platform cyclic_files) ExamplePlugin_vtable
          cyclic_manager = None"
  by (simp add: GetPluginLoadOrder_def cyclic_names cyclic_resolve_None)

lemma missing_deps:
  "declared_deps ExamplePlugin_vtable missing_manager ''A'' = Some [''B'', ''Missing'']"
  "declared_deps ExamplePlugin_vtable missing_manager ''B'' = Some []"
  "declared_deps ExamplePlugin_vtable missing_manager ''Missing'' = None"
  by code_simp+

lemma missing_keys: "map fst (loadedPlugins missing_manager) = [''A'', ''B'']"
  by code_simp

lemma missing_acyclic: "acyclic (dep_rel ExamplePlugin_vtable missing_manager)"
proof (rule acyclicI_order[where f = "\<lambda>n. if n = ''A'' then 0 else (1::nat)"])
  fix d p assume "(d, p) \<in> dep_rel ExamplePlugin_vtable missing_manager"
  from dep_relD[OF this] have "p = ''A'' \<and> d \<noteq> ''A''"
    by (auto simp: missing_keys missing_deps)
  then show "(if p = ''A'' then 0 else (1::nat)) < (if d = ''A'' then 0 else 1)"
    by simp
qed

text \<open>
  C3, counterexample. \<open>A\<close> declares the dependencies \<open>B\<close> and \<open>Missing\<close>, and no plugin
  \<open>Missing\<close> is registered. \<^verbatim>\<open>GetPluginLoadOrder\<close> returns the sequence \<open>[B]\<close> as it
  would return any load order: the \<^verbatim>\<open>false\<close> of \<^verbatim>\<open>ResolveDependencies\<close> is dropped and no
  error reaches the caller.
\<close>

theorem missing_dependency_silent:
  "declared_deps ExamplePlugin_vtable missing_manager ''A'' = Some [''B'', ''Missing''] \<and>
   declared_deps ExamplePlugin_vtable missing_manager ''Missing'' = None \<and>
   GetPluginLoadOrder 2 (example_platform missing_files) ExamplePlugin_vtable missing_manager
     = Some [''B'']"
  by code_simp

text \<open>C3, witness: the amended statement at the plugins \<open>A\<close> and \<open>B\<close> above.\<close>

theorem missing_dependency_omitted_witness:
  "acyclic (dep_rel ExamplePlugin_vtable missing_manager) \<and>
   declared_deps ExamplePlugin_vtable missing_manager ''A'' = Some [''B'', ''Missing''] \<and>
   ''Missing'' \<in> set [''B'', ''Missing''] \<and>
   declared_deps ExamplePlugin_vtable missing_manager ''Missing'' = None \<and>
   (\<exists>N. \<forall>k \<ge> N.
      (\<exists>lo. ResolveDependencies k ExamplePlugin_vtable missing_manager ''A'' [] = Some (False, lo)) \<and>
      (\<exists>lo. GetPluginLoadOrder k (example_platform missing_files) ExamplePlugin_vtable
              missing_manager = Some lo \<and> ''A'' \<notin> set lo))"
proof -
  have m: "''Missing'' \<in> set [''B'', ''Missing'']" by simp
  from missing_dependency_omitted[OF missing_acyclic missing_deps(1) m missing_deps(3),
      of "example_platform missing_files"]
  show ?thesis using missing_acyclic missing_deps m by blast
qed

lemma acyclic_ex_deps:
  "declared_deps ExamplePlugin_vtable acyclic_manager ''A'' = Some []"
  "declared_deps ExamplePlugin_vtable acyclic_manager ''B'' = Some [''A'']"
  "declared_deps ExamplePlugin_vtable acyclic_manager ''C'' = Some [''A'', ''D'']"
  "declared_deps ExamplePlugin_vtable acyclic_manager ''D'' = Some []"
  by code_simp+

lemma acyclic_ex_keys: "map fst (loadedPlugins acyclic_manager) = [''A'', ''B'', ''C'', ''D'']"
  by code_simp

lemma acyclic_ex_edges:
  assumes "(d, p) \<in> dep_rel ExamplePlugin_vtable acyclic_manager"
  shows "(d, p) \<in> {(''A'', ''B''), (''A'', ''C''), (''D'', ''C'')}"
  using dep_relD[OF assms] by (auto simp: acyclic_ex_keys acyclic_ex_deps)

lemma acyclic_ex_acyclic: "acyclic (dep_rel ExamplePlugin_vtable acyclic_manager)"
proof (rule acyclicI_order[where f = "\<lambda>n. if n = ''A'' \<or> n = ''D'' then 1 else (0::nat)"])
  fix d p assume "(d, p) \<in> dep_rel ExamplePlugin_vtable acyclic_manager"
  from acyclic_ex_edges[OF this]
  show "(if p = ''A'' \<or> p = ''D'' then 1 else (0::nat)) < (if d = ''A'' \<or> d = ''D'' then 1 else 0)"
    by auto
qed

lemma acyclic_ex_registered: "deps_registered ExamplePlugin_vtable acyclic_manager"
  unfolding deps_registered_def
  using acyclic_ex_edges by (fastforce simp: acyclic_ex_deps)

lemma acyclic_ex_instances: "instances_present acyclic_manager"
  by code_simp

lemma example_platform_visits: "visits_each_once (example_platform files)"
  by (simp add: visits_each_once_def example_platform_def)

lemma acyclic_ex_no_path: "(''D'', ''A'') \<notin> (dep_rel ExamplePlugin_vtable acyclic_manager)\<^sup>*"
proof
  assume "(''D'', ''A'') \<in> (dep_rel ExamplePlugin_vtable acyclic_manager)\<^sup>*"
  then show False
  proof (cases rule: rtranclE)
    case base
    then show False by simp
  next
    case (step y)
    from acyclic_ex_edges[OF step(2)] show False by simp
  qed
qed

text \<open>C2, witness: four plugins, \<open>B\<close> depending on \<open>A\<close>, and \<open>C\<close> on \<open>A\<close> and \<open>D\<close>.\<close>

theorem load_order_after_dependencies_witness:
  "acyclic (dep_rel ExamplePlugin_vtable acyclic_manager) \<and>
   deps_registered ExamplePlugin_vtable acyclic_manager \<and>
   instances_present acyclic_manager \<and>
   visits_each_once (example_platform acyclic_files) \<and>
   GetPluginLoadOrder 3 (example_platform acyclic_files) ExamplePlugin_vtable acyclic_manager
     = Some [''D'', ''A'', ''C'', ''B''] \<and>
   declared_deps ExamplePlugin_vtable acyclic_manager ''C'' = Some [''A'', ''D''] \<and>
   (''D'', ''A'') \<notin> (dep_rel ExamplePlugin_vtable acyclic_manager)\<^sup>* \<and>
   ResolveDependencies 3 ExamplePlugin_vtable acyclic_manager ''C'' [] =
     Some (True, [''A'', ''D'', ''C'']) \<and>
   (\<exists>N. \<forall>k \<ge> N.
      (\<exists>lo. GetPluginLoadOrder k (example_platform acyclic_files) ExamplePlugin_vtable
              acyclic_manager = Some lo \<and>
         set lo = {''A'', ''B'', ''C'', ''D''} \<and> distinct lo \<and>
         (\<forall>i < length lo. \<forall>ds.
            declared_deps ExamplePlugin_vtable acyclic_manager (lo ! i) = Some ds \<longrightarrow>
            (\<forall>d \<in> set ds. \<exists>j < i. lo ! j = d))) \<and>
      (\<exists>a b c. ResolveDependencies k ExamplePlugin_vtable acyclic_manager ''C'' [] =
            Some (True, a @ ''A'' # b @ ''D'' # c @ [''C''])))"
proof -
  have e1: "GetPluginLoadOrder 3 (example_platform acyclic_files) ExamplePlugin_vtable
      acyclic_manager = Some [''D'', ''A'', ''C'', ''B'']"
    by code_simp
  have e2: "ResolveDependencies 3 ExamplePlugin_vtable acyclic_manager ''C'' [] =
     Some (True, [''A'', ''D'', ''C''])"
    by code_simp
  from load_order_after_dependencies[OF acyclic_ex_acyclic acyclic_ex_registered
      acyclic_ex_instances example_platform_visits[of acyclic_files]]
  obtain N where N: "\<forall>k \<ge> N.
      (\<exists>lo. GetPluginLoadOrder k (example_platform acyclic_files) ExamplePlugin_vtable
              acyclic_manager = Some lo \<and>
         set lo = set (map fst (loadedPlugins acyclic_manager)) \<and> distinct lo \<and>
         (\<forall>i < length lo. \<forall>ds.
            declared_deps ExamplePlugin_vtable acyclic_manager (lo ! i) = Some ds \<longrightarrow>
            (\<forall>d \<in> set ds. \<exists>j < i. lo ! j = d))) \<and>
      (\<forall>p ds lo i j.
         declared_deps ExamplePlugin_vtable acyclic_manager p = Some ds \<and> i < j \<and>
         j < length ds \<and> ds ! j \<notin> set lo \<and>
         (\<forall>i' \<le> i. (ds ! j, ds ! i') \<notin> (dep_rel ExamplePlugin_vtable acyclic_manager)\<^sup>*) \<longrightarrow>
         (\<exists>a b c. ResolveDependencies k ExamplePlugin_vtable acyclic_manager p lo =
            Some (True, a @ ds ! i # b @ ds ! j # c @ [p])))"
    by blast
  have "\<forall>k \<ge> N.
      (\<exists>lo. GetPluginLoadOrder k (example_platform acyclic_files) ExamplePlugin_vtable
              acyclic_manager = Some lo \<and>
         set lo = {''A'', ''B'', ''C'', ''D''} \<and> distinct lo \<and>
         (\<forall>i < length lo. \<forall>ds.
            declared_deps ExamplePlugin_vtable acyclic_manager (lo ! i) = Some ds \<longrightarrow>
            (\<forall>d \<in> set ds. \<exists>j < i. lo ! j = d))) \<and>
      (\<exists>a b c. ResolveDependencies k ExamplePlugin_vtable acyclic_manager ''C'' [] =
            Some (True, a @ ''A'' # b @ ''D'' # c @ [''C'']))"
  proof (intro allI impI conjI)
    fix k assume k: "N \<le> k"
    with N show "\<exists>lo. GetPluginLoadOrder k (example_platform acyclic_files) ExamplePlugin_vtable
              acyclic_manager = Some lo \<and>
         set lo = {''A'', ''B'', ''C'', ''D''} \<and> distinct lo \<and>
         (\<forall>i < length lo. \<forall>ds.
            declared_deps ExamplePlugin_vtable acyclic_manager (lo ! i) = Some ds \<longrightarrow>
            (\<forall>d \<in> set ds. \<exists>j < i. lo ! j = d))"
      by (simp add: acyclic_ex_keys)
  next
    fix k assume k: "N \<le> k"
    have pre: "declared_deps ExamplePlugin_vtable acyclic_manager ''C'' = Some [''A'', ''D''] \<and>
        (0::nat) < 1 \<and> 1 < length [''A'', ''D''] \<and> [''A'', ''D''] ! 1 \<notin> set [] \<and>
        (\<forall>i' \<le> 0. ([''A'', ''D''] ! 1, [''A'', ''D''] ! i') \<notin>
            (dep_rel ExamplePlugin_vtable acyclic_manager)\<^sup>*)"
      using acyclic_ex_deps(3) acyclic_ex_no_path by simp
    from N k have "\<forall>p ds lo i j.
         declared_deps ExamplePlugin_vtable acyclic_manager p = Some ds \<and> i < j \<and>
         j < length ds \<and> ds ! j \<notin> set lo \<and>
         (\<forall>i' \<le> i. (ds ! j, ds ! i') \<notin> (dep_rel ExamplePlugin_vtable acyclic_manager)\<^sup>*) \<longrightarrow>
         (\<exists>a b c. ResolveDependencies k ExamplePlugin_vtable acyclic_manager p lo =
            Some (True, a @ ds ! i # b @ ds ! j # c @ [p]))"
      by blast
    from this[rule_format, OF pre]
    show "\<exists>a b c. ResolveDependencies k ExamplePlugin_vtable acyclic_manager ''C'' [] =
            Some (True, a @ ''A'' # b @ ''D'' # c @ [''C''])"
      by simp
  qed
  then have "\<exists>N. \<forall>k \<ge> N.
      (\<exists>lo. GetPluginLoadOrder k (example_platform acyclic_files) ExamplePlugin_vtable
              acyclic_manager = Some lo \<and>
         set lo = {''A'', ''B'', ''C'', ''D''} \<and> distinct lo \<and>
         (\<forall>i < length lo. \<forall>ds.
            declared_deps ExamplePlugin_vtable acyclic_manager (lo ! i) = Some ds \<longrightarrow>
            (\<forall>d \<in> set ds. \<exists>j < i. lo ! j = d))) \<and>
      (\<exists>a b c. ResolveDependencies k ExamplePlugin_vtable acyclic_manager ''C'' [] =
            Some (True, a @ ''A'' # b @ ''D'' # c @ [''C'']))"
    by blast
  then show ?thesis
    using acyclic_ex_acyclic acyclic_ex_registered acyclic_ex_instances
      example_platform_visits[of acyclic_files] e1 e2 acyclic_ex_deps(3) acyclic_ex_no_path
    by (intro conjI) assumption+
qed


section \<open>Properties of loading, unloading and dispatch\<close>

text \<open>
  C10. \<^verbatim>\<open>UnloadPlugin\<close> on a name that is not a key of the plugin table returns false and
  changes nothing but \<^verbatim>\<open>_lastError\<close>: the plugin table and the handler table are the same,
  no module is released and no method of any plugin is called (the trace is the same).
\<close>

theorem unload_unknown_plugin:
  assumes "pluginName \<notin> set (map fst (loadedPlugins m))"
  shows "\<exists>m'. UnloadPlugin pf vt pluginName m = Inr (False, m') \<and>
     m' = m\<lparr>lastError := ''Plugin not found: '' @ pluginName\<rparr> \<and>
     loadedPlugins m' = loadedPlugins m \<and>
     eventHandlers m' = eventHandlers m \<and>
     sys_log m' = sys_log m"
proof -
  from assms have "map_of (loadedPlugins m) pluginName = None"
    by (simp add: map_of_eq_None_iff)
  then show ?thesis by (simp add: UnloadPlugin_def)
qed

text \<open>C10, witness: the name \<open>Z\<close> in a manager that holds \<open>A\<close>, \<open>B\<close> and \<open>C\<close>.\<close>

theorem unload_unknown_plugin_witness:
  "''Z'' \<notin> set (map fst (loadedPlugins dispatch_manager)) \<and>
   (\<exists>m'. UnloadPlugin (example_platform dispatch_files) ExamplePlugin_vtable ''Z''
            dispatch_manager = Inr (False, m') \<and>
      m' = dispatch_manager\<lparr>lastError := ''Plugin not found: Z''\<rparr> \<and>
      loadedPlugins m' = loadedPlugins dispatch_manager \<and>
      eventHandlers m' = eventHandlers dispatch_manager \<and>
      sys_log m' = sys_log dispatch_manager)"
proof -
  have h: "''Z'' \<notin> set (map fst (loadedPlugins dispatch_manager))" by code_simp
  from unload_unknown_plugin[OF h, of "example_platform dispatch_files" ExamplePlugin_vtable] h
  show ?thesis by simp
qed

text \<open>
  C7. The file exists, the module binds and its factory returns an instance whose name
  is empty, whose version is empty, or whose name is already a key of the plugin table.
  \<^verbatim>\<open>LoadPlugin\<close> then releases the module and, after that, destroys the instance. When
  the release takes the module out of the process the call does not return: it ends in
  the destructor of the instance. When the module stays mapped the call returns false with
  the plugin table and the handler table unchanged: no entry is created and the entry that
  is there is untouched.
\<close>

theorem rejected_load_destroys_after_release:
  assumes ex: "fs_exists pf path" and dl: "dlopen pf path = Some md"
    and cr: "dl_CreatePlugin md = Some (Some p)"
    and bad: "name (GetInfo vt p) = [] \<or> version (GetInfo vt p) = [] \<or>
              name (GetInfo vt p) \<in> set (map fst (loadedPlugins m))"
  shows "(dlclose_unmaps pf (dl_handle md) \<longrightarrow> LoadPlugin pf vt path m = Inl Crash) \<and>
     (\<not> dlclose_unmaps pf (dl_handle md) \<longrightarrow>
        (\<exists>m'. LoadPlugin pf vt path m = Inr (False, m') \<and>
           loadedPlugins m' = loadedPlugins m \<and>
           eventHandlers m' = eventHandlers m \<and>
           sys_log m' = sys_log m @ [DlClose (dl_handle md), Destroyed p]))"
proof -
  have lib: "LoadPluginLibrary pf path
        \<lparr>plugin = None, handle = None, filePath = [], createFunc = None, destroyFunc = False\<rparr> m =
      Inr (True, \<lparr>plugin = Some p, handle = Some (dl_handle md), filePath = path,
         createFunc = Some (Some p), destroyFunc = dl_DestroyPlugin md\<rparr>, m)"
    by (simp add: LoadPluginLibrary_def dl cr)
  have dup: "name (GetInfo vt p) \<in> set (map fst (loadedPlugins m)) \<Longrightarrow>
      map_of (loadedPlugins m) (name (GetInfo vt p)) \<noteq> None"
    by (simp add: map_of_eq_None_iff)
  from bad consider (a) "name (GetInfo vt p) = []"
    | (b) "name (GetInfo vt p) \<noteq> []" "version (GetInfo vt p) = []"
    | (c) "name (GetInfo vt p) \<noteq> []" "version (GetInfo vt p) \<noteq> []"
          "name (GetInfo vt p) \<in> set (map fst (loadedPlugins m))"
    by blast
  then show ?thesis
  proof cases
    case a
    then show ?thesis
      by (simp add: LoadPlugin_def ex lib ValidatePlugin_def unload_and_return_false_def
          UnloadPluginLibrary_def new_LoadedPlugin_def)
  next
    case b
    then show ?thesis
      by (simp add: LoadPlugin_def ex lib ValidatePlugin_def unload_and_return_false_def
          UnloadPluginLibrary_def new_LoadedPlugin_def)
  next
    case c
    with dup show ?thesis
      by (simp add: LoadPlugin_def ex lib ValidatePlugin_def unload_and_return_false_def
          UnloadPluginLibrary_def new_LoadedPlugin_def)
  qed
qed

text \<open>
  C7, at two inputs: a module whose plugin has no name, and a second module whose plugin
  is named \<open>A\<close>, loaded into a manager that holds \<open>A\<close>, \<open>B\<close> and \<open>C\<close>. Where the release
  takes the module out of the process both calls crash; where it does not, both return
  false and leave the plugin table as it is.
\<close>

theorem rejected_load_destroys_after_release_witness:
  "fs_exists (example_platform invalid_files) ''/plugins/noname'' \<and>
   dlopen (example_platform invalid_files) ''/plugins/noname'' =
     Some \<lparr>dl_handle = 7, dl_CreatePlugin = Some (Some (plugin_like_example [] [] NORMAL)),
           dl_DestroyPlugin = True\<rparr> \<and>
   name (GetInfo ExamplePlugin_vtable (plugin_like_example [] [] NORMAL)) = [] \<and>
   dlclose_unmaps (example_platform invalid_files) 7 \<and>
   LoadPlugin (example_platform invalid_files) ExamplePlugin_vtable ''/plugins/noname''
     loaded_manager = Inl Crash \<and>
   fs_exists (example_platform invalid_files) ''/plugins/A2'' \<and>
   dlopen (example_platform invalid_files) ''/plugins/A2'' =
     Some \<lparr>dl_handle = 9, dl_CreatePlugin = Some (Some (plugin_like_example ''A'' [] LOW)),
           dl_DestroyPlugin = True\<rparr> \<and>
   name (GetInfo ExamplePlugin_vtable (plugin_like_example ''A'' [] LOW))
     \<in> set (map fst (loadedPlugins loaded_manager)) \<and>
   dlclose_unmaps (example_platform invalid_files) 9 \<and>
   LoadPlugin (example_platform invalid_files) ExamplePlugin_vtable ''/plugins/A2''
     loaded_manager = Inl Crash \<and>
   \<not> dlclose_unmaps (keeps_modules_mapped (example_platform invalid_files)) 9 \<and>
   (\<exists>m'. LoadPlugin (keeps_modules_mapped (example_platform invalid_files))
            ExamplePlugin_vtable ''/plugins/A2'' loaded_manager = Inr (False, m') \<and>
      loadedPlugins m' = loadedPlugins loaded_manager \<and>
      eventHandlers m' = eventHandlers loaded_manager \<and>
      sys_log m' =
        sys_log loaded_manager @ [DlClose 9, Destroyed (plugin_like_example ''A'' [] LOW)])"
proof -
  let ?pf = "example_platform invalid_files"
  let ?pk = "keeps_modules_mapped (example_platform invalid_files)"
  let ?md7 = "\<lparr>dl_handle = 7, dl_CreatePlugin = Some (Some (plugin_like_example [] [] NORMAL)),
           dl_DestroyPlugin = True\<rparr>"
  let ?md9 = "\<lparr>dl_handle = 9, dl_CreatePlugin = Some (Some (plugin_like_example ''A'' [] LOW)),
           dl_DestroyPlugin = True\<rparr>"
  have e2: "fs_exists ?pf ''/plugins/noname''" by code_simp
  have d2: "dlopen ?pf ''/plugins/noname'' = Some ?md7" by code_simp
  have b2: "name (GetInfo ExamplePlugin_vtable (plugin_like_example [] [] NORMAL)) = []"
    by code_simp
  have u7: "dlclose_unmaps ?pf 7" by (simp add: example_platform_def)
  have e1: "fs_exists ?pf ''/plugins/A2''" by code_simp
  have d1: "dlopen ?pf ''/plugins/A2'' = Some ?md9" by code_simp
  have b1: "name (GetInfo ExamplePlugin_vtable (plugin_like_example ''A'' [] LOW))
     \<in> set (map fst (loadedPlugins loaded_manager))" by code_simp
  have u9: "dlclose_unmaps ?pf 9" by (simp add: example_platform_def)
  have e3: "fs_exists ?pk ''/plugins/A2''" by code_simp
  have d3: "dlopen ?pk ''/plugins/A2'' = Some ?md9" by code_simp
  have k9: "\<not> dlclose_unmaps ?pk 9" by (simp add: keeps_modules_mapped_def)
  have r2: "LoadPlugin ?pf ExamplePlugin_vtable ''/plugins/noname'' loaded_manager = Inl Crash"
    using rejected_load_destroys_after_release[of ?pf "''/plugins/noname''" ?md7
        "plugin_like_example [] [] NORMAL" ExamplePlugin_vtable loaded_manager,
        OF e2 d2 _ disjI1[OF b2]] u7
    by simp
  have r1: "LoadPlugin ?pf ExamplePlugin_vtable ''/plugins/A2'' loaded_manager = Inl Crash"
    using rejected_load_destroys_after_release[of ?pf "''/plugins/A2''" ?md9
        "plugin_like_example ''A'' [] LOW" ExamplePlugin_vtable loaded_manager,
        OF e1 d1 _ disjI2[OF disjI2[OF b1]]] u9
    by simp
  have r3: "\<exists>m'. LoadPlugin ?pk ExamplePlugin_vtable ''/plugins/A2'' loaded_manager
            = Inr (False, m') \<and>
      loadedPlugins m' = loadedPlugins loaded_manager \<and>
      eventHandlers m' = eventHandlers loaded_manager \<and>
      sys_log m' =
        sys_log loaded_manager @ [DlClose 9, Destroyed (plugin_like_example ''A'' [] LOW)]"
    using rejected_load_destroys_after_release[of ?pk "''/plugins/A2''" ?md9
        "plugin_like_example ''A'' [] LOW" ExamplePlugin_vtable loaded_manager,
        OF e3 d3 _ disjI2[OF disjI2[OF b1]]] k9
    by simp
  from e2 d2 b2 u7 r2 e1 d1 b1 u9 r1 k9 r3 show ?thesis by (intro conjI)
qed

text \<open>
  The same order of release and destruction ends \<^verbatim>\<open>UnloadPlugin\<close>: on a plugin whose
  module the release takes out of the process, it does not return, and the entry is not
  erased.
\<close>

lemma unload_crashes_when_module_unmapped:
  assumes e: "map_of (loadedPlugins m) pluginName = Some lp" and p: "plugin lp = Some p"
    and h: "handle lp = Some h" and un: "dlclose_unmaps pf h"
  shows "UnloadPlugin pf vt pluginName m = Inl Crash"
  using un
  by (simp add: UnloadPlugin_def e p h UnregisterEventHandler_def UnloadPluginLibrary_def
      Let_def split_beta)

text \<open>
  C6, amended. On a plugin that is \<^verbatim>\<open>RUNNING\<close> and whose module stays mapped when its
  handle is released, \<^verbatim>\<open>UnloadPlugin\<close> calls \<^verbatim>\<open>Stop\<close>, then \<^verbatim>\<open>Unload\<close>, then releases the
  module, once, and destroys the instance as \<^verbatim>\<open>Unload\<close> left it; it returns true. The
  entry and the handler binding are removed, and a second \<^verbatim>\<open>UnloadPlugin\<close> of the name
  releases nothing: it returns false. The state of the instance is what the plugin's own
  \<^verbatim>\<open>Unload\<close> makes it; \<^verbatim>\<open>ExamplePlugin::Unload\<close> makes it \<^verbatim>\<open>UNLOADED\<close>.
\<close>

theorem unload_running_plugin:
  assumes e: "map_of (loadedPlugins m) pluginName = Some lp" and p: "plugin lp = Some p"
    and h: "handle lp = Some h" and run: "GetState vt p = RUNNING"
    and mapped: "\<not> dlclose_unmaps pf h"
  shows "(\<exists>m'. UnloadPlugin pf vt pluginName m = Inr (True, m') \<and>
     sys_log m' = sys_log m @
       [PluginCall pluginName CallStop, PluginCall pluginName CallUnload, DlClose h,
        Destroyed (Unload vt (Stop vt p))] \<and>
     count_list (sys_log m') (DlClose h) = Suc (count_list (sys_log m) (DlClose h)) \<and>
     map_of (loadedPlugins m') pluginName = None \<and>
     map_of (eventHandlers m') pluginName = None \<and>
     UnloadPlugin pf vt pluginName m' =
       Inr (False, m'\<lparr>lastError := ''Plugin not found: '' @ pluginName\<rparr>)) \<and>
     GetState ExamplePlugin_vtable (Unload ExamplePlugin_vtable q) = UNLOADED"
  using mapped
  by (simp add: UnloadPlugin_def e p h run UnregisterEventHandler_def UnloadPluginLibrary_def
      AList.delete_conv' ExamplePlugin_vtable_def)

text \<open>
  C6, counterexample. Plugins whose \<^verbatim>\<open>Unload\<close> leaves \<^verbatim>\<open>_state\<close> alone, in modules that
  stay mapped: loaded, initialized by the host and started, they give the manager
  \<open>dispatch_manager\<close>, with \<open>A\<close> running. \<^verbatim>\<open>UnloadPlugin\<close> stops \<open>A\<close>, unloads it, releases
  the module, destroys the instance and returns true; the instance was in state \<^verbatim>\<open>LOADED\<close>,
  where \<^verbatim>\<open>Stop\<close> had put it, and never in state \<^verbatim>\<open>UNLOADED\<close>.
\<close>

theorem unload_leaves_state_to_plugin:
  "StartAllPlugins (keeps_modules_mapped (example_platform dispatch_files)) unload_keeps_state
     (fold (host_initialize unload_keeps_state) [''A'', ''B'', ''C'']
        (loaded_from (keeps_modules_mapped (example_platform dispatch_files))
           unload_keeps_state [''/plugins/A'', ''/plugins/B'', ''/plugins/C'']))
     = dispatch_manager \<and>
   plugin_state unload_keeps_state dispatch_manager ''A'' = Some RUNNING \<and>
   (\<exists>m'. UnloadPlugin (keeps_modules_mapped (example_platform dispatch_files))
            unload_keeps_state ''A'' dispatch_manager = Inr (True, m') \<and>
      sys_log m' = sys_log dispatch_manager @
        [PluginCall ''A'' CallStop, PluginCall ''A'' CallUnload, DlClose 1,
         Destroyed ((plugin_like_example ''A'' [] HIGH)\<lparr>m_state := LOADED\<rparr>)]) \<and>
   GetState unload_keeps_state ((plugin_like_example ''A'' [] HIGH)\<lparr>m_state := LOADED\<rparr>)
     = LOADED"
proof -
  let ?pk = "keeps_modules_mapped (example_platform dispatch_files)"
  have a: "StartAllPlugins ?pk unload_keeps_state
     (fold (host_initialize unload_keeps_state) [''A'', ''B'', ''C'']
        (loaded_from ?pk unload_keeps_state
           [''/plugins/A'', ''/plugins/B'', ''/plugins/C''])) = dispatch_manager"
    by code_simp
  have b: "plugin_state unload_keeps_state dispatch_manager ''A'' = Some RUNNING"
    by code_simp
  have c: "UnloadPlugin ?pk unload_keeps_state ''A'' dispatch_manager =
      Inr (True, snd (projr (UnloadPlugin ?pk unload_keeps_state ''A'' dispatch_manager)))"
    by code_simp
  have d: "sys_log (snd (projr (UnloadPlugin ?pk unload_keeps_state ''A'' dispatch_manager)))
      = sys_log dispatch_manager @
        [PluginCall ''A'' CallStop, PluginCall ''A'' CallUnload, DlClose 1,
         Destroyed ((plugin_like_example ''A'' [] HIGH)\<lparr>m_state := LOADED\<rparr>)]"
    by code_simp
  have f: "GetState unload_keeps_state ((plugin_like_example ''A'' [] HIGH)\<lparr>m_state := LOADED\<rparr>)
     = LOADED"
    by code_simp
  from c d have "\<exists>m'. UnloadPlugin ?pk unload_keeps_state ''A'' dispatch_manager = Inr (True, m') \<and>
      sys_log m' = sys_log dispatch_manager @
        [PluginCall ''A'' CallStop, PluginCall ''A'' CallUnload, DlClose 1,
         Destroyed ((plugin_like_example ''A'' [] HIGH)\<lparr>m_state := LOADED\<rparr>)]"
    by blast
  with a b f show ?thesis by (intro conjI)
qed

text \<open>C6, witness: unloading the running plugin \<open>A\<close> from a module that stays mapped.\<close>

theorem unload_running_plugin_witness:
  "map_of (loadedPlugins dispatch_manager) ''A'' =
     Some \<lparr>plugin = Some ((plugin_like_example ''A'' [] HIGH)\<lparr>m_state := RUNNING\<rparr>),
           handle = Some 1, filePath = ''/plugins/A'',
           createFunc = Some (Some (plugin_like_example ''A'' [] HIGH)), destroyFunc = True\<rparr> \<and>
   GetState ExamplePlugin_vtable ((plugin_like_example ''A'' [] HIGH)\<lparr>m_state := RUNNING\<rparr>) = RUNNING \<and>
   \<not> dlclose_unmaps (keeps_modules_mapped (example_platform dispatch_files)) 1 \<and>
   (\<exists>m'. UnloadPlugin (keeps_modules_mapped (example_platform dispatch_files))
            ExamplePlugin_vtable ''A'' dispatch_manager = Inr (True, m') \<and>
     sys_log m' = sys_log dispatch_manager @
       [PluginCall ''A'' CallStop, PluginCall ''A'' CallUnload, DlClose 1,
        Destroyed ((plugin_like_example ''A'' [] HIGH)\<lparr>m_state := UNLOADED\<rparr>)] \<and>
     count_list (sys_log m') (DlClose 1) = 1 \<and>
     map_of (loadedPlugins m') ''A'' = None \<and>
     map_of (eventHandlers m') ''A'' = None \<and>
     UnloadPlugin (keeps_modules_mapped (example_platform dispatch_files))
       ExamplePlugin_vtable ''A'' m' = Inr (False, m'\<lparr>lastError := ''Plugin not found: A''\<rparr>))"
proof -
  let ?pk = "keeps_modules_mapped (example_platform dispatch_files)"
  let ?p = "(plugin_like_example ''A'' [] HIGH)\<lparr>m_state := RUNNING\<rparr>"
  let ?lp = "\<lparr>plugin = Some ?p, handle = Some 1, filePath = ''/plugins/A'',
           createFunc = Some (Some (plugin_like_example ''A'' [] HIGH)), destroyFunc = True\<rparr>"
  have e: "map_of (loadedPlugins dispatch_manager) ''A'' = Some ?lp" by code_simp
  have r: "GetState ExamplePlugin_vtable ?p = RUNNING" by code_simp
  have k: "\<not> dlclose_unmaps ?pk 1" by (simp add: keeps_modules_mapped_def)
  have s: "Unload ExamplePlugin_vtable (Stop ExamplePlugin_vtable ?p) =
      (plugin_like_example ''A'' [] HIGH)\<lparr>m_state := UNLOADED\<rparr>"
    by (simp add: ExamplePlugin_vtable_def)
  have c: "count_list (sys_log dispatch_manager) (DlClose 1) = 0" by code_simp
  from unload_running_plugin[of dispatch_manager "''A''" ?lp ?p 1 ExamplePlugin_vtable ?pk,
      OF e _ _ r k]
  show ?thesis using e r k s c by auto
qed

lemma invoke_handlers_raise:
  "\<forall>x \<in> set pre. call x = None \<Longrightarrow> call h = Some e \<Longrightarrow>
     invoke_handlers call (pre @ h # post) = (pre @ [h], Some e)"
  by (induction pre) auto

lemma invoke_handlers_all:
  "\<forall>x \<in> set hs. call x = None \<Longrightarrow> invoke_handlers call hs = (hs, None)"
  by (induction hs) auto

text \<open>
  C5, amended. When a handler of the ordered handler sequence throws, the handlers
  before it and the handler itself have been called, the exception leaves the dispatch
  function, and no handler after it is called.
\<close>

theorem exception_leaves_dispatch:
  assumes "GetEventHandlersByPriority pf vt m = pre @ h # post"
    and "\<forall>x \<in> set pre. call x = None" and "call h = Some e"
  shows "OnPlayerLogin pf vt call m = (pre @ [h], Some e) \<and>
         OnPlayerLogout pf vt call m = (pre @ [h], Some e) \<and>
         OnWorldUpdate pf vt call m = (pre @ [h], Some e)"
  using assms
  by (simp add: OnPlayerLogin_def OnPlayerLogout_def OnWorldUpdate_def invoke_handlers_raise)

text \<open>
  C5, counterexample. Three running plugins; the handler that is called first throws.
  \<^verbatim>\<open>OnPlayerLogin\<close> calls this handler only, and the exception reaches the host.
\<close>

theorem handler_exception_aborts_dispatch:
  "GetEventHandlersByPriority (example_platform dispatch_files) ExamplePlugin_vtable
     dispatch_manager = [''handler of C'', ''handler of A'', ''handler of B''] \<and>
   OnPlayerLogin (example_platform dispatch_files) ExamplePlugin_vtable
     (\<lambda>h. if h = ''handler of C'' then Some ''exception'' else None) dispatch_manager
     = ([''handler of C''], Some ''exception'')"
  by code_simp

text \<open>C5, witness: the second of the three handlers throws in \<^verbatim>\<open>OnWorldUpdate\<close>.\<close>

theorem exception_leaves_dispatch_witness:
  "GetEventHandlersByPriority (example_platform dispatch_files) ExamplePlugin_vtable
     dispatch_manager = [''handler of C''] @ ''handler of A'' # [''handler of B''] \<and>
   (if ''handler of C'' = ''handler of A'' then Some ''exception'' else None) = None \<and>
   (if ''handler of A'' = ''handler of A'' then Some ''exception'' else None) = Some ''exception'' \<and>
   OnWorldUpdate (example_platform dispatch_files) ExamplePlugin_vtable
     (\<lambda>h. if h = ''handler of A'' then Some ''exception'' else None) dispatch_manager
     = ([''handler of C'', ''handler of A''], Some ''exception'')"
proof -
  have g: "GetEventHandlersByPriority (example_platform dispatch_files) ExamplePlugin_vtable
     dispatch_manager = [''handler of C''] @ ''handler of A'' # [''handler of B'']"
    by code_simp
  have a: "\<forall>x \<in> set [''handler of C''].
      (\<lambda>h. if h = ''handler of A'' then Some ''exception'' else None) x = None"
    by simp
  have b: "(\<lambda>h. if h = ''handler of A'' then Some ''exception'' else None) ''handler of A''
      = Some ''exception''"
    by simp
  note t = exception_leaves_dispatch[of "example_platform dispatch_files" ExamplePlugin_vtable
      dispatch_manager "[''handler of C'']" "''handler of A''" "[''handler of B'']"
      "\<lambda>h. if h = ''handler of A'' then Some ''exception'' else None" "''exception''"]
  from t[OF g] a b
  have r: "OnWorldUpdate (example_platform dispatch_files) ExamplePlugin_vtable
     (\<lambda>h. if h = ''handler of A'' then Some ''exception'' else None) dispatch_manager
     = ([''handler of C''] @ [''handler of A''], Some ''exception'')"
    by blast
  have c: "(if ''handler of C'' = ''handler of A'' then Some ''exception'' else None)
      = (None :: string option)"
    by simp
  have d: "(if ''handler of A'' = ''handler of A'' then Some ''exception'' else None)
      = Some ''exception''"
    by simp
  from r have r': "OnWorldUpdate (example_platform dispatch_files) ExamplePlugin_vtable
     (\<lambda>h. if h = ''handler of A'' then Some ''exception'' else None) dispatch_manager
     = ([''handler of C'', ''handler of A''], Some ''exception'')"
    by simp
  from g c d r' show ?thesis by (intro conjI)
qed


section \<open>Properties of the dispatch order, the lifecycle and the handler bindings\<close>


lemma mset_insert_by: "mset (insert_by c x xs) = add_mset x (mset xs)"
  by (induction xs) auto

lemma set_insert_by: "set (insert_by c x xs) = insert x (set xs)"
  by (induction xs) auto

lemma mset_insertion_sort: "mset (insertion_sort c xs) = mset xs"
  by (induction xs) (auto simp: insertion_sort_def mset_insert_by)

lemma sorted_insert_by:
  "sorted_wrt (\<lambda>a b. \<not> prio_greater b a) xs \<Longrightarrow>
   sorted_wrt (\<lambda>a b. \<not> prio_greater b a) (insert_by prio_greater x xs)"
  by (induction xs) (auto simp: set_insert_by prio_greater_def)

lemma sorted_insertion_sort:
  "sorted_wrt (\<lambda>a b. \<not> prio_greater b a) (insertion_sort prio_greater xs)"
  by (induction xs) (auto simp: insertion_sort_def sorted_insert_by)

lemma example_platform_sorts: "sorts_by_priority (example_platform files)"
  by (simp add: sorts_by_priority_def example_platform_def mset_insertion_sort
      sorted_insertion_sort)

lemma mset_map_filter_eq:
  "mset (List.map_filter f xs) = image_mset (the \<circ> f) (filter_mset (\<lambda>x. f x \<noteq> None) (mset xs))"
  by (simp add: List.map_filter_def)

lemma mset_map_filter:
  "mset xs = mset ys \<Longrightarrow> mset (List.map_filter f xs) = mset (List.map_filter f ys)"
  by (simp add: mset_map_filter_eq)

lemma map_filter_fst_aux:
  assumes "distinct (map fst al)"
  shows "set bs \<subseteq> set al \<Longrightarrow>
      List.map_filter (\<lambda>k. case map_of al k of None \<Rightarrow> None | Some v \<Rightarrow> f (k, v)) (map fst bs)
       = List.map_filter f bs"
proof (induction bs)
  case Nil
  show ?case by simp
next
  case (Cons b bs)
  obtain k v where b: "b = (k, v)" by (cases b)
  with Cons.prems have "(k, v) \<in> set al" by simp
  with assms have "map_of al k = Some v" by (rule map_of_is_SomeI)
  moreover from Cons have "List.map_filter
      (\<lambda>k. case map_of al k of None \<Rightarrow> None | Some v \<Rightarrow> f (k, v)) (map fst bs)
       = List.map_filter f bs"
    by simp
  ultimately show ?case using b by (simp split: option.splits)
qed

lemma map_filter_fst:
  assumes "distinct (map fst al)"
  shows "List.map_filter (\<lambda>k. case map_of al k of None \<Rightarrow> None | Some v \<Rightarrow> f (k, v)) (map fst al)
       = List.map_filter f al"
  using map_filter_fst_aux[OF assms, of al] by simp

text \<open>
  C4, amended. On a platform whose \<^verbatim>\<open>unordered_map\<close> walk visits every binding once and
  whose \<^verbatim>\<open>std::sort\<close> sorts, a dispatch in which no handler throws calls exactly the
  handlers of the bindings whose plugin is \<^verbatim>\<open>RUNNING\<close>, each once, in an order in which
  the priority never increases. The order of handlers of equal priority is the
  library's; nothing relates it to the order of registration.
\<close>

theorem dispatch_running_by_priority:
  assumes it: "visits_each_once pf" and srt: "sorts_by_priority pf"
    and dist: "distinct (map fst (eventHandlers m))"
    and quiet: "\<forall>h \<in> set (GetEventHandlersByPriority pf vt m). call h = None"
  shows "OnPlayerLogin pf vt call m = (map snd (prioritizedHandlers pf vt m), None) \<and>
     mset (prioritizedHandlers pf vt m) = mset (running_bindings vt m) \<and>
     sorted_wrt (\<lambda>a b. priority_value (fst b) \<le> priority_value (fst a))
       (prioritizedHandlers pf vt m)"
proof (intro conjI)
  show "OnPlayerLogin pf vt call m = (map snd (prioritizedHandlers pf vt m), None)"
    using invoke_handlers_all[OF quiet]
    by (simp add: OnPlayerLogin_def GetEventHandlersByPriority_def)
next
  have "mset (prioritizedHandlers pf vt m) = mset (prioritizedHandlers_unsorted pf vt m)"
    using srt by (simp add: sorts_by_priority_def prioritizedHandlers_def)
  also have "\<dots> = mset (List.map_filter
       (\<lambda>pluginName. case map_of (eventHandlers m) pluginName of
            None \<Rightarrow> None
          | Some handler \<Rightarrow> running_entry vt m (pluginName, handler))
       (map fst (eventHandlers m)))"
    unfolding prioritizedHandlers_unsorted_def
    using it by (intro mset_map_filter) (simp add: visits_each_once_def)
  also have "\<dots> = mset (running_bindings vt m)"
    by (simp add: map_filter_fst[OF dist] running_bindings_def)
  finally show "mset (prioritizedHandlers pf vt m) = mset (running_bindings vt m)" .
next
  have "(\<lambda>a b. \<not> prio_greater b a) =
      (\<lambda>(a :: PluginPriority \<times> 'b) b. priority_value (fst b) \<le> priority_value (fst a))"
    by (auto simp: prio_greater_def fun_eq_iff)
  with srt show "sorted_wrt (\<lambda>a b. priority_value (fst b) \<le> priority_value (fst a))
       (prioritizedHandlers pf vt m)"
    by (simp add: sorts_by_priority_def prioritizedHandlers_def)
qed


text \<open>
  C4, counterexample. Handlers registered in the order \<open>A\<close> (High), \<open>B\<close> (Normal), \<open>C\<close>
  (High), all plugins running, on a platform that walks the table newest first and sorts
  stably: the handler of \<open>C\<close> is called before the handler of \<open>A\<close>, where ascending
  registration order asks for \<open>A\<close> before \<open>C\<close>.
\<close>

theorem dispatch_order_not_registration_order:
  "visits_each_once (example_platform dispatch_files) \<and>
   sorts_by_priority (example_platform dispatch_files) \<and>
   eventHandlers dispatch_manager =
     [(''A'', ''handler of A''), (''B'', ''handler of B''), (''C'', ''handler of C'')] \<and>
   running_bindings ExamplePlugin_vtable dispatch_manager =
     [(HIGH, ''handler of A''), (NORMAL, ''handler of B''), (HIGH, ''handler of C'')] \<and>
   spec_dispatch_order ExamplePlugin_vtable dispatch_manager =
     [''handler of A'', ''handler of C'', ''handler of B''] \<and>
   GetEventHandlersByPriority (example_platform dispatch_files) ExamplePlugin_vtable
     dispatch_manager = [''handler of C'', ''handler of A'', ''handler of B''] \<and>
   GetEventHandlersByPriority (example_platform dispatch_files) ExamplePlugin_vtable
     dispatch_manager \<noteq> spec_dispatch_order ExamplePlugin_vtable dispatch_manager"
proof -
  have a: "eventHandlers dispatch_manager =
     [(''A'', ''handler of A''), (''B'', ''handler of B''), (''C'', ''handler of C'')]"
    by code_simp
  have b: "running_bindings ExamplePlugin_vtable dispatch_manager =
     [(HIGH, ''handler of A''), (NORMAL, ''handler of B''), (HIGH, ''handler of C'')]"
    by code_simp
  have c: "spec_dispatch_order ExamplePlugin_vtable dispatch_manager =
     [''handler of A'', ''handler of C'', ''handler of B'']"
    by code_simp
  have d: "GetEventHandlersByPriority (example_platform dispatch_files) ExamplePlugin_vtable
     dispatch_manager = [''handler of C'', ''handler of A'', ''handler of B'']"
    by code_simp
  have e: "GetEventHandlersByPriority (example_platform dispatch_files) ExamplePlugin_vtable
     dispatch_manager \<noteq> spec_dispatch_order ExamplePlugin_vtable dispatch_manager"
    unfolding c d by simp
  from a b c d e example_platform_visits[of dispatch_files] example_platform_sorts[of dispatch_files]
  show ?thesis by (intro conjI)
qed

text \<open>C4, witness: the three running plugins above, with handlers that return.\<close>

theorem dispatch_running_by_priority_witness:
  "visits_each_once (example_platform dispatch_files) \<and>
   sorts_by_priority (example_platform dispatch_files) \<and>
   distinct (map fst (eventHandlers dispatch_manager)) \<and>
   OnPlayerLogin (example_platform dispatch_files) ExamplePlugin_vtable
     (\<lambda>h. None :: string option) dispatch_manager =
     ([''handler of C'', ''handler of A'', ''handler of B''], None) \<and>
   mset (prioritizedHandlers (example_platform dispatch_files) ExamplePlugin_vtable dispatch_manager)
     = mset [(HIGH, ''handler of A''), (NORMAL, ''handler of B''), (HIGH, ''handler of C'')] \<and>
   sorted_wrt (\<lambda>a b. priority_value (fst b) \<le> priority_value (fst a))
     (prioritizedHandlers (example_platform dispatch_files) ExamplePlugin_vtable dispatch_manager)"
proof -
  let ?pf = "example_platform dispatch_files"
  have d: "distinct (map fst (eventHandlers dispatch_manager))" by code_simp
  have q: "\<forall>h \<in> set (GetEventHandlersByPriority ?pf ExamplePlugin_vtable dispatch_manager).
      (\<lambda>h. None :: string option) h = None"
    by simp
  have b: "running_bindings ExamplePlugin_vtable dispatch_manager =
     [(HIGH, ''handler of A''), (NORMAL, ''handler of B''), (HIGH, ''handler of C'')]"
    by code_simp
  have g: "map snd (prioritizedHandlers ?pf ExamplePlugin_vtable dispatch_manager) =
      [''handler of C'', ''handler of A'', ''handler of B'']"
    by code_simp
  note t = dispatch_running_by_priority[of ?pf dispatch_manager ExamplePlugin_vtable
      "\<lambda>h. None :: string option",
      OF example_platform_visits example_platform_sorts d q]
  from t have t1: "OnPlayerLogin ?pf ExamplePlugin_vtable (\<lambda>h. None :: string option)
      dispatch_manager = ([''handler of C'', ''handler of A'', ''handler of B''], None)"
    unfolding g by (rule conjunct1)
  from t have t2: "mset (prioritizedHandlers ?pf ExamplePlugin_vtable dispatch_manager)
     = mset [(HIGH, ''handler of A''), (NORMAL, ''handler of B''), (HIGH, ''handler of C'')]"
    unfolding b by (rule conjunct2[THEN conjunct1])
  from t have t3: "sorted_wrt (\<lambda>a b. priority_value (fst b) \<le> priority_value (fst a))
     (prioritizedHandlers ?pf ExamplePlugin_vtable dispatch_manager)"
    by (rule conjunct2[THEN conjunct2])
  from example_platform_visits[of dispatch_files] example_platform_sorts[of dispatch_files]
    d t1 t2 t3
  show ?thesis by (intro conjI)
qed


lemma UnloadPluginLibrary_tables:
  assumes "UnloadPluginLibrary pf lp m = Inr (lp', m')"
  shows "loadedPlugins m' = loadedPlugins m \<and> eventHandlers m' = eventHandlers m"
  using assms by (auto simp: UnloadPluginLibrary_def Let_def split: option.splits if_splits)

lemma unload_and_return_false_tables:
  assumes "unload_and_return_false pf lp m = Inr (ok, m')"
  shows "\<not> ok \<and> loadedPlugins m' = loadedPlugins m \<and> eventHandlers m' = eventHandlers m"
proof (cases "UnloadPluginLibrary pf lp m")
  case (Inl f)
  with assms show ?thesis by (simp add: unload_and_return_false_def)
next
  case (Inr r)
  obtain lp' m1 where r: "r = (lp', m1)" by (cases r)
  from UnloadPluginLibrary_tables[of pf lp m lp' m1] Inr r assms show ?thesis
    by (simp add: unload_and_return_false_def)
qed

lemma LoadPluginLibrary_tables:
  assumes "LoadPluginLibrary pf path lp m = Inr (bound, lp', m')"
  shows "loadedPlugins m' = loadedPlugins m \<and> eventHandlers m' = eventHandlers m \<and>
         (bound \<longrightarrow> handle lp' \<noteq> None)"
proof (cases "dlopen pf path")
  case None
  with assms show ?thesis by (auto simp: LoadPluginLibrary_def)
next
  case (Some md)
  show ?thesis
  proof (cases "dl_CreatePlugin md")
    case c: (Some created)
    with Some assms show ?thesis by (auto simp: LoadPluginLibrary_def)
  next
    case c: None
    let ?lp1 = "lp\<lparr>handle := Some (dl_handle md), createFunc := dl_CreatePlugin md,
                   destroyFunc := dl_DestroyPlugin md\<rparr>"
    let ?m0 = "m\<lparr>lastError := ''Plugin does not export CreatePlugin function: '' @ path\<rparr>"
    from assms Some c obtain lp2 where
      u: "UnloadPluginLibrary pf ?lp1 ?m0 = Inr (lp2, m')" and b: "\<not> bound"
      by (auto simp: LoadPluginLibrary_def Let_def split: sum.splits)
    from UnloadPluginLibrary_tables[OF u] b show ?thesis by simp
  qed
qed

lemma ValidatePlugin_tables [simp]:
  "loadedPlugins (snd (ValidatePlugin vt pl m)) = loadedPlugins m"
  "eventHandlers (snd (ValidatePlugin vt pl m)) = eventHandlers m"
  by (simp_all add: ValidatePlugin_def Let_def split: option.splits)

lemma LoadPlugin_effect:
  assumes r: "LoadPlugin pf vt path m = Inr (ok, m')"
  shows "eventHandlers m' = eventHandlers m \<and>
   ((\<not> ok \<and> loadedPlugins m' = loadedPlugins m) \<or>
    (ok \<and> (\<exists>nm lp p p'. loadedPlugins m' = AList.update nm lp (loadedPlugins m) \<and>
       map_of (loadedPlugins m) nm = None \<and> plugin lp = Some p' \<and> handle lp \<noteq> None \<and>
       Load vt p = (True, p'))))"
proof (cases "fs_exists pf path")
  case False
  with r show ?thesis by (auto simp: LoadPlugin_def)
next
  case True
  from r True obtain bound lp m1 where
    lib: "LoadPluginLibrary pf path new_LoadedPlugin m = Inr (bound, lp, m1)"
    by (auto simp: LoadPlugin_def split: sum.splits)
  note m1 = LoadPluginLibrary_tables[OF lib]
  show ?thesis
  proof (cases bound)
    case False
    with r True lib m1 show ?thesis by (auto simp: LoadPlugin_def)
  next
    case b: True
    show ?thesis
    proof (cases "plugin lp")
      case None
      with r True lib b have "unload_and_return_false pf lp
          (m1\<lparr>lastError := ''Failed to create plugin instance from: '' @ path\<rparr>) = Inr (ok, m')"
        by (simp add: LoadPlugin_def)
      from unload_and_return_false_tables[OF this] m1 show ?thesis by simp
    next
      case (Some p)
      obtain valid m2 where v: "ValidatePlugin vt (Some p) m1 = (valid, m2)" by (metis surj_pair)
      have m2: "loadedPlugins m2 = loadedPlugins m" "eventHandlers m2 = eventHandlers m"
        using ValidatePlugin_tables[of vt "Some p" m1] v m1 by simp_all
      obtain loaded p' where l: "Load vt p = (loaded, p')" by (metis surj_pair)
      let ?n = "name (GetInfo vt p)"
      let ?m3 = "m2\<lparr>sys_log := sys_log m2 @ [PluginCall ?n CallLoad]\<rparr>"
      show ?thesis
      proof (cases "valid \<and> map_of (loadedPlugins m) ?n = None \<and> loaded")
        case False
        then consider (a) "\<not> valid"
          | (b) "valid" "map_of (loadedPlugins m) ?n \<noteq> None"
          | (c) "valid" "map_of (loadedPlugins m) ?n = None" "\<not> loaded"
          by auto
        then show ?thesis
        proof cases
          case a
          with r True lib b Some v have "unload_and_return_false pf lp m2 = Inr (ok, m')"
            by (simp add: LoadPlugin_def)
          from unload_and_return_false_tables[OF this] m2 show ?thesis by simp
        next
          case b2: b
          with r True lib b Some v m2 have "unload_and_return_false pf lp
              (m2\<lparr>lastError := ''Plugin already loaded: '' @ ?n\<rparr>) = Inr (ok, m')"
            by (simp add: LoadPlugin_def Let_def)
          from unload_and_return_false_tables[OF this] m2 show ?thesis by simp
        next
          case c
          with r True lib b Some v m2 l have "unload_and_return_false pf (lp\<lparr>plugin := Some p'\<rparr>)
              (?m3\<lparr>lastError := ''Plugin failed to load: '' @ ?n\<rparr>) = Inr (ok, m')"
            by (simp add: LoadPlugin_def Let_def)
          from unload_and_return_false_tables[OF this] m2 show ?thesis by simp
        qed
      next
        case good: True
        with r True lib b Some v m2 l have
          res: "ok" "m' = ?m3\<lparr>loadedPlugins :=
                  AList.update ?n (lp\<lparr>plugin := Some p'\<rparr>) (loadedPlugins ?m3)\<rparr>"
          by (simp_all add: LoadPlugin_def Let_def)
        from res m2 have "loadedPlugins m' =
            AList.update ?n (lp\<lparr>plugin := Some p'\<rparr>) (loadedPlugins m)"
          "eventHandlers m' = eventHandlers m"
          by simp_all
        moreover have "plugin (lp\<lparr>plugin := Some p'\<rparr>) = Some p'" by simp
        moreover from m1 b have "handle (lp\<lparr>plugin := Some p'\<rparr>) \<noteq> None" by simp
        moreover from good l have "Load vt p = (True, p')" by simp
        moreover from good have "map_of (loadedPlugins m) ?n = None" by simp
        ultimately show ?thesis using res(1)
          by (intro conjI disjI2 exI[of _ ?n]
              exI[of _ "lp\<lparr>plugin := Some p'\<rparr>"] exI[of _ p] exI[of _ p']) assumption+
      qed
    qed
  qed
qed

text \<open>
  \<^verbatim>\<open>InitializePlugin\<close> on a name that is in the table: the thread holds \<^verbatim>\<open>_pluginsMutex\<close>
  and locks it again in \<^verbatim>\<open>GetPlugin\<close>. It does not return, and \<^verbatim>\<open>Initialize\<close> is not
  called. The only calls that return are those on names that are not in the table; they
  return false.
\<close>

lemma InitializePlugin_registered_deadlocks:
  assumes "map_of (loadedPlugins m) pluginName = Some lp"
  shows "InitializePlugin vt pluginName m = Inl Deadlock"
  using assms
  by (simp add: InitializePlugin_def CheckPluginDependencies_def GetPlugin_under_def)

lemma InitializePlugin_returns:
  assumes "InitializePlugin vt pluginName m = Inr (ok, m')"
  shows "\<not> ok \<and> m' = m \<and> map_of (loadedPlugins m) pluginName = None"
proof (cases "map_of (loadedPlugins m) pluginName")
  case None
  with assms show ?thesis by (simp add: InitializePlugin_def)
next
  case (Some lp)
  from InitializePlugin_registered_deadlocks[OF Some, of vt] assms show ?thesis by simp
qed

lemma unload_tail:
  assumes "(case UnloadPluginLibrary pf lp0 m0 of
              Inl f \<Rightarrow> Inl f
            | Inr (lp', m3) \<Rightarrow>
                Inr (True, m3\<lparr>loadedPlugins := AList.delete n (loadedPlugins m3)\<rparr>))
           = Inr (ok, m')"
  shows "ok \<and> loadedPlugins m' = AList.delete n (loadedPlugins m0) \<and>
         eventHandlers m' = eventHandlers m0"
proof (cases "UnloadPluginLibrary pf lp0 m0")
  case (Inl f)
  with assms show ?thesis by simp
next
  case (Inr r)
  obtain lp' m3 where r: "r = (lp', m3)" by (cases r)
  from UnloadPluginLibrary_tables[of pf lp0 m0 lp' m3] Inr r assms show ?thesis by auto
qed

lemma UnloadPlugin_effect:
  assumes r: "UnloadPlugin pf vt n m = Inr (ok, m')"
  shows "(\<not> ok \<and> loadedPlugins m' = loadedPlugins m \<and> eventHandlers m' = eventHandlers m) \<or>
   (ok \<and> loadedPlugins m' = AList.delete n (loadedPlugins m) \<and>
    eventHandlers m' = AList.delete n (eventHandlers m))"
proof (cases "map_of (loadedPlugins m) n")
  case None
  with r show ?thesis by (auto simp: UnloadPlugin_def)
next
  case (Some lp)
  show ?thesis
  proof (cases "plugin lp")
    case None
    from r Some None unload_tail[where pf = pf and ?lp0.0 = "lp\<lparr>plugin := None\<rparr>"
        and ?m0.0 = "UnregisterEventHandler n m" and n = n and ok = ok and m' = m']
    show ?thesis by (simp add: UnloadPlugin_def UnregisterEventHandler_def)
  next
    case p: (Some p)
    show ?thesis
    proof (cases "GetState vt p = RUNNING")
      case True
      from r Some p True
        unload_tail[where pf = pf and ?lp0.0 = "lp\<lparr>plugin := Some (Unload vt (Stop vt p))\<rparr>"
          and ?m0.0 = "UnregisterEventHandler n (m\<lparr>sys_log := sys_log m @
             [PluginCall n CallStop, PluginCall n CallUnload]\<rparr>)" and n = n and ok = ok
          and m' = m']
      show ?thesis by (simp add: UnloadPlugin_def UnregisterEventHandler_def)
    next
      case False
      from r Some p False
        unload_tail[where pf = pf and ?lp0.0 = "lp\<lparr>plugin := Some (Unload vt p)\<rparr>"
          and ?m0.0 = "UnregisterEventHandler n
             (m\<lparr>sys_log := sys_log m @ [PluginCall n CallUnload]\<rparr>)"
          and n = n and ok = ok and m' = m']
      show ?thesis by (simp add: UnloadPlugin_def UnregisterEventHandler_def)
    qed
  qed
qed

lemma fold_invariant:
  assumes "\<And>k s. P s \<Longrightarrow> P (f k s)" "P s"
  shows "P (fold f ks s)"
  using assms(2) by (induction ks arbitrary: s) (auto intro: assms(1))

lemma handlers_start_body [simp]:
  "eventHandlers (StartAllPlugins_body vt k m) = eventHandlers m"
  by (simp add: StartAllPlugins_body_def split: option.splits)

lemma handlers_stop_body [simp]:
  "eventHandlers (StopAllPlugins_body vt k m) = eventHandlers m"
  by (simp add: StopAllPlugins_body_def split: option.splits)

lemma lastError_start_body [simp]:
  "lastError (StartAllPlugins_body vt k m) = lastError m"
  by (simp add: StartAllPlugins_body_def split: option.splits)

lemma lastError_stop_body [simp]:
  "lastError (StopAllPlugins_body vt k m) = lastError m"
  by (simp add: StopAllPlugins_body_def split: option.splits)

lemma StartAllPlugins_frame:
  "eventHandlers (StartAllPlugins pf vt m) = eventHandlers m \<and>
   lastError (StartAllPlugins pf vt m) = lastError m"
  unfolding StartAllPlugins_def
  by (rule fold_invariant[where P = "\<lambda>s. eventHandlers s = eventHandlers m \<and>
        lastError s = lastError m"]) simp_all

lemma StopAllPlugins_frame:
  "eventHandlers (StopAllPlugins pf vt m) = eventHandlers m \<and>
   lastError (StopAllPlugins pf vt m) = lastError m"
  unfolding StopAllPlugins_def
  by (rule fold_invariant[where P = "\<lambda>s. eventHandlers s = eventHandlers m \<and>
        lastError s = lastError m"]) simp_all

text \<open>
  Every operation of \<open>reachable\<close> leaves the handler table as it is or removes a binding
  from it; the one operation that binds, \<^verbatim>\<open>InitializePlugin\<close>, returns only where it binds
  nothing. So the five operations alone never make a binding.
\<close>

lemma reachable_no_binding:
  assumes "reachable pf vt m"
  shows "eventHandlers m = []"
  using assms
proof (induction rule: reachable.induct)
  case reach_new
  show ?case by (simp add: new_PluginManager_def)
next
  case (reach_load m path ok m')
  from LoadPlugin_effect[OF reach_load.hyps(2)] reach_load.IH show ?case by simp
next
  case (reach_initialize m pluginName ok m')
  from InitializePlugin_returns[OF reach_initialize.hyps(2)] reach_initialize.IH
  show ?case by simp
next
  case (reach_start m)
  with StartAllPlugins_frame[of pf vt m] show ?case by simp
next
  case (reach_stop m)
  with StopAllPlugins_frame[of pf vt m] show ?case by simp
next
  case (reach_unload m pluginName ok m')
  from UnloadPlugin_effect[OF reach_unload.hyps(2)] reach_unload.IH show ?case by auto
qed

text \<open>
  C9, amended. The handler table is not kept in step with the lifecycle state, which
  every plugin writes for itself. From any state of the manager: a \<^verbatim>\<open>LoadPlugin\<close> that
  returns, \<^verbatim>\<open>StartAllPlugins\<close> and \<^verbatim>\<open>StopAllPlugins\<close> leave the handler table exactly as
  it is, so a stopped plugin keeps the binding it has and a plugin that becomes
  \<^verbatim>\<open>INITIALIZED\<close> or \<^verbatim>\<open>RUNNING\<close> gets none; an \<^verbatim>\<open>UnloadPlugin\<close> that returns true has
  removed the binding of the name it was given and no other, and one that returns false
  has removed none; an \<^verbatim>\<open>InitializePlugin\<close> that returns has changed no binding but that
  of the name it was given, and none when it returns false.
\<close>

theorem bindings_follow_operations:
  "(\<forall>path ok m'. LoadPlugin pf vt path m = Inr (ok, m') \<longrightarrow>
       eventHandlers m' = eventHandlers m) \<and>
   eventHandlers (StartAllPlugins pf vt m) = eventHandlers m \<and>
   eventHandlers (StopAllPlugins pf vt m) = eventHandlers m \<and>
   (\<forall>n ok m'. UnloadPlugin pf vt n m = Inr (ok, m') \<longrightarrow>
       eventHandlers m' = (if ok then AList.delete n (eventHandlers m) else eventHandlers m)) \<and>
   (\<forall>n ok m'. InitializePlugin vt n m = Inr (ok, m') \<longrightarrow>
       (\<forall>k. k \<noteq> n \<longrightarrow> map_of (eventHandlers m') k = map_of (eventHandlers m) k) \<and>
       (\<not> ok \<longrightarrow> eventHandlers m' = eventHandlers m))"
proof (intro conjI allI impI)
  fix path ok m'
  assume "LoadPlugin pf vt path m = Inr (ok, m')"
  from LoadPlugin_effect[OF this] show "eventHandlers m' = eventHandlers m" by simp
next
  show "eventHandlers (StartAllPlugins pf vt m) = eventHandlers m"
    using StartAllPlugins_frame[of pf vt m] by simp
next
  show "eventHandlers (StopAllPlugins pf vt m) = eventHandlers m"
    using StopAllPlugins_frame[of pf vt m] by simp
next
  fix n ok m'
  assume "UnloadPlugin pf vt n m = Inr (ok, m')"
  from UnloadPlugin_effect[OF this]
  show "eventHandlers m' = (if ok then AList.delete n (eventHandlers m) else eventHandlers m)"
    by auto
next
  fix n ok m' k
  assume "InitializePlugin vt n m = Inr (ok, m')"
  from InitializePlugin_returns[OF this]
  show "map_of (eventHandlers m') k = map_of (eventHandlers m) k" by simp
next
  fix n ok m'
  assume "InitializePlugin vt n m = Inr (ok, m')"
  from InitializePlugin_returns[OF this]
  show "eventHandlers m' = eventHandlers m" by simp
qed

text \<open>
  C9, counterexample. A plugin whose \<^verbatim>\<open>Load\<close> ends in \<^verbatim>\<open>INITIALIZED\<close>. After
  \<^verbatim>\<open>LoadPlugin\<close> alone it is in the table in state \<^verbatim>\<open>INITIALIZED\<close> and no handler is
  bound to its name; after \<^verbatim>\<open>StartAllPlugins\<close> it is \<^verbatim>\<open>RUNNING\<close>, and still no handler
  is bound.
\<close>

theorem initialized_plugin_without_binding:
  "LoadPlugin (example_platform dispatch_files) initializes_in_load ''/plugins/A''
     new_PluginManager = Inr (True, self_initialized_manager) \<and>
   reachable (example_platform dispatch_files) initializes_in_load self_initialized_manager \<and>
   plugin_state initializes_in_load self_initialized_manager ''A'' = Some INITIALIZED \<and>
   map_of (eventHandlers self_initialized_manager) ''A'' = None \<and>
   reachable (example_platform dispatch_files) initializes_in_load
     (StartAllPlugins (example_platform dispatch_files) initializes_in_load
        self_initialized_manager) \<and>
   plugin_state initializes_in_load
     (StartAllPlugins (example_platform dispatch_files) initializes_in_load
        self_initialized_manager) ''A'' = Some RUNNING \<and>
   map_of (eventHandlers
     (StartAllPlugins (example_platform dispatch_files) initializes_in_load
        self_initialized_manager)) ''A'' = None"
proof -
  let ?pf = "example_platform dispatch_files"
  have l: "LoadPlugin ?pf initializes_in_load ''/plugins/A'' new_PluginManager
      = Inr (True, self_initialized_manager)"
    by code_simp
  have r1: "reachable ?pf initializes_in_load self_initialized_manager"
    by (rule reach_load[OF reach_new l])
  have r2: "reachable ?pf initializes_in_load
      (StartAllPlugins ?pf initializes_in_load self_initialized_manager)"
    by (rule reach_start[OF r1])
  have s1: "plugin_state initializes_in_load self_initialized_manager ''A'' = Some INITIALIZED"
    by code_simp
  have h1: "map_of (eventHandlers self_initialized_manager) ''A'' = None"
    by code_simp
  have s2: "plugin_state initializes_in_load
      (StartAllPlugins ?pf initializes_in_load self_initialized_manager) ''A'' = Some RUNNING"
    by code_simp
  have h2: "map_of (eventHandlers
      (StartAllPlugins ?pf initializes_in_load self_initialized_manager)) ''A'' = None"
    by code_simp
  from l r1 s1 h1 r2 s2 h2 show ?thesis by (intro conjI)
qed

text \<open>
  C9, witness: the manager with the running plugins \<open>A\<close>, \<open>B\<close> and \<open>C\<close> and their three
  bindings, on a platform that keeps modules mapped. A rejected load and
  \<^verbatim>\<open>StopAllPlugins\<close> leave the three bindings, the latter with \<open>A\<close> in state \<^verbatim>\<open>LOADED\<close>;
  unloading \<open>A\<close> leaves the bindings of \<open>B\<close> and \<open>C\<close>; \<^verbatim>\<open>InitializePlugin\<close> on a name that
  is not in the table returns false and changes nothing.
\<close>

theorem bindings_follow_operations_witness:
  "eventHandlers dispatch_manager =
     [(''A'', ''handler of A''), (''B'', ''handler of B''), (''C'', ''handler of C'')] \<and>
   (\<exists>m'. LoadPlugin (keeps_modules_mapped (example_platform dispatch_files))
            ExamplePlugin_vtable ''/plugins/A'' dispatch_manager = Inr (False, m') \<and>
      eventHandlers m' =
        [(''A'', ''handler of A''), (''B'', ''handler of B''), (''C'', ''handler of C'')]) \<and>
   eventHandlers (StopAllPlugins (keeps_modules_mapped (example_platform dispatch_files))
       ExamplePlugin_vtable dispatch_manager) =
     [(''A'', ''handler of A''), (''B'', ''handler of B''), (''C'', ''handler of C'')] \<and>
   plugin_state ExamplePlugin_vtable
     (StopAllPlugins (keeps_modules_mapped (example_platform dispatch_files))
        ExamplePlugin_vtable dispatch_manager) ''A'' = Some LOADED \<and>
   (\<exists>m'. UnloadPlugin (keeps_modules_mapped (example_platform dispatch_files))
            ExamplePlugin_vtable ''A'' dispatch_manager = Inr (True, m') \<and>
      eventHandlers m' = [(''B'', ''handler of B''), (''C'', ''handler of C'')]) \<and>
   (\<exists>m'. InitializePlugin ExamplePlugin_vtable ''Z'' dispatch_manager = Inr (False, m') \<and>
      eventHandlers m' =
        [(''A'', ''handler of A''), (''B'', ''handler of B''), (''C'', ''handler of C'')])"
proof -
  let ?pk = "keeps_modules_mapped (example_platform dispatch_files)"
  let ?E = ExamplePlugin_vtable
  let ?hs = "[(''A'', ''handler of A''), (''B'', ''handler of B''), (''C'', ''handler of C'')]"
  note t = bindings_follow_operations[of ?pk ?E dispatch_manager]
  have eh: "eventHandlers dispatch_manager = ?hs" by code_simp
  have l: "LoadPlugin ?pk ?E ''/plugins/A'' dispatch_manager =
      Inr (False, snd (projr (LoadPlugin ?pk ?E ''/plugins/A'' dispatch_manager)))"
    by code_simp
  from t l have "eventHandlers (snd (projr (LoadPlugin ?pk ?E ''/plugins/A'' dispatch_manager)))
      = eventHandlers dispatch_manager"
    by blast
  with l eh have c1: "\<exists>m'. LoadPlugin ?pk ?E ''/plugins/A'' dispatch_manager = Inr (False, m') \<and>
      eventHandlers m' = ?hs"
    by metis
  from t eh have c2: "eventHandlers (StopAllPlugins ?pk ?E dispatch_manager) = ?hs" by simp
  have c3: "plugin_state ?E (StopAllPlugins ?pk ?E dispatch_manager) ''A'' = Some LOADED"
    by code_simp
  have u: "UnloadPlugin ?pk ?E ''A'' dispatch_manager =
      Inr (True, snd (projr (UnloadPlugin ?pk ?E ''A'' dispatch_manager)))"
    by code_simp
  from t u have "eventHandlers (snd (projr (UnloadPlugin ?pk ?E ''A'' dispatch_manager))) =
      (if True then AList.delete ''A'' (eventHandlers dispatch_manager)
       else eventHandlers dispatch_manager)"
    by blast
  with eh have "eventHandlers (snd (projr (UnloadPlugin ?pk ?E ''A'' dispatch_manager))) =
      [(''B'', ''handler of B''), (''C'', ''handler of C'')]"
    by (simp add: AList.delete_eq)
  with u have c4: "\<exists>m'. UnloadPlugin ?pk ?E ''A'' dispatch_manager = Inr (True, m') \<and>
      eventHandlers m' = [(''B'', ''handler of B''), (''C'', ''handler of C'')]"
    by metis
  have i: "InitializePlugin ?E ''Z'' dispatch_manager =
      Inr (False, snd (projr (InitializePlugin ?E ''Z'' dispatch_manager)))"
    by code_simp
  from t i have "eventHandlers (snd (projr (InitializePlugin ?E ''Z'' dispatch_manager))) =
      eventHandlers dispatch_manager"
    by blast
  with i eh have c5: "\<exists>m'. InitializePlugin ?E ''Z'' dispatch_manager = Inr (False, m') \<and>
      eventHandlers m' = ?hs"
    by metis
  from eh c1 c2 c3 c4 c5 show ?thesis by (intro conjI)
qed
lemma start_body_lookup:
  "GetPlugin (StartAllPlugins_body vt k m) n =
     (if n = k then map_option (\<lambda>p. if GetState vt p = INITIALIZED then Start vt p else p)
                      (GetPlugin m k)
      else GetPlugin m n)"
  by (auto simp: StartAllPlugins_body_def GetPlugin_def update_conv' split: option.splits)

lemma stop_body_lookup:
  "GetPlugin (StopAllPlugins_body vt k m) n =
     (if n = k then map_option (\<lambda>p. if GetState vt p = RUNNING then Stop vt p else p)
                      (GetPlugin m k)
      else GetPlugin m n)"
  by (auto simp: StopAllPlugins_body_def GetPlugin_def update_conv' split: option.splits)

lemma fold_lookup:
  assumes body: "\<And>k s n. GetPlugin (f k s) n =
      (if n = k then map_option g (GetPlugin s k) else GetPlugin s n)"
  shows "distinct ks \<Longrightarrow> GetPlugin (fold f ks m) n =
      (if n \<in> set ks then map_option g (GetPlugin m n) else GetPlugin m n)"
proof (induction ks arbitrary: m)
  case Nil
  show ?case by simp
next
  case (Cons k ks)
  then have "GetPlugin (fold f ks (f k m)) n =
      (if n \<in> set ks then map_option g (GetPlugin (f k m) n) else GetPlugin (f k m) n)"
    by simp
  with Cons.prems show ?case by (auto simp: body)
qed

lemma names_cover:
  assumes it: "visits_each_once pf" and dist: "distinct (map fst (loadedPlugins m))"
  shows "distinct (GetLoadedPluginNames pf m) \<and>
         set (GetLoadedPluginNames pf m) = set (map fst (loadedPlugins m))"
proof -
  from it have ms: "mset (GetLoadedPluginNames pf m) = mset (map fst (loadedPlugins m))"
    by (simp add: visits_each_once_def GetLoadedPluginNames_def)
  from mset_eq_imp_distinct_iff[OF ms] dist have "distinct (GetLoadedPluginNames pf m)" by simp
  moreover from mset_eq_setD[OF ms]
  have "set (GetLoadedPluginNames pf m) = set (map fst (loadedPlugins m))" .
  ultimately show ?thesis by simp
qed


text \<open>
  C8, amended. The manager has no error for a transition that the lifecycle table does
  not list, and the state is written by the plugin. \<^verbatim>\<open>StartAllPlugins\<close> calls \<^verbatim>\<open>Start\<close> on
  a plugin whose state is \<^verbatim>\<open>INITIALIZED\<close> and \<^verbatim>\<open>StopAllPlugins\<close> calls \<^verbatim>\<open>Stop\<close> on one
  whose state is \<^verbatim>\<open>RUNNING\<close>; a plugin in any other state they leave as it is, and
  neither reports anything (\<^verbatim>\<open>_lastError\<close> is as before). \<^verbatim>\<open>UnloadPlugin\<close> on a plugin
  whose module stays mapped at its release returns true and removes the entry, whatever
  the state. The methods of \<^verbatim>\<open>ExamplePlugin\<close> test no state: from any state they end in
  the state the lifecycle table gives (load: Loaded, initialize: Initialized, start:
  Running, stop: Loaded, unload: Unloaded).
\<close>

theorem lifecycle_calls_unguarded:
  assumes it: "visits_each_once pf" and dist: "distinct (map fst (loadedPlugins m))"
    and e: "map_of (loadedPlugins m) n = Some lp" and p: "plugin lp = Some p"
  shows "GetPlugin (StartAllPlugins pf vt m) n =
       Some (if GetState vt p = INITIALIZED then Start vt p else p) \<and>
     lastError (StartAllPlugins pf vt m) = lastError m \<and>
     GetPlugin (StopAllPlugins pf vt m) n =
       Some (if GetState vt p = RUNNING then Stop vt p else p) \<and>
     lastError (StopAllPlugins pf vt m) = lastError m \<and>
     ((\<forall>h. handle lp = Some h \<longrightarrow> \<not> dlclose_unmaps pf h) \<longrightarrow>
        (\<exists>m'. UnloadPlugin pf vt n m = Inr (True, m') \<and> GetPlugin m' n = None)) \<and>
     (\<forall>q. CheckDependencies ExamplePlugin_vtable q \<and>
          GetState ExamplePlugin_vtable q = m_state q \<and>
          Load ExamplePlugin_vtable q = (True, q\<lparr>m_state := LOADED\<rparr>) \<and>
          Initialize ExamplePlugin_vtable q = (True, q\<lparr>m_state := INITIALIZED\<rparr>) \<and>
          Start ExamplePlugin_vtable q = q\<lparr>m_state := RUNNING\<rparr> \<and>
          Stop ExamplePlugin_vtable q = q\<lparr>m_state := LOADED\<rparr> \<and>
          Unload ExamplePlugin_vtable q = q\<lparr>m_state := UNLOADED\<rparr>)"
proof (intro conjI)
  have gp: "GetPlugin m n = Some p" using e p by (simp add: GetPlugin_def)
  from e have key: "n \<in> set (map fst (loadedPlugins m))"
    by (metis map_of_eq_None_iff option.distinct(1) set_map)
  from names_cover[OF it dist] key have
    names: "distinct (GetLoadedPluginNames pf m)" "n \<in> set (GetLoadedPluginNames pf m)"
    by simp_all
  show "GetPlugin (StartAllPlugins pf vt m) n =
       Some (if GetState vt p = INITIALIZED then Start vt p else p)"
    unfolding StartAllPlugins_def
    using fold_lookup[of "StartAllPlugins_body vt"
        "\<lambda>p. if GetState vt p = INITIALIZED then Start vt p else p",
        OF start_body_lookup names(1), of m n] names(2) gp
    by simp
  show "lastError (StartAllPlugins pf vt m) = lastError m"
    using StartAllPlugins_frame[of pf vt m] by simp
  show "GetPlugin (StopAllPlugins pf vt m) n =
       Some (if GetState vt p = RUNNING then Stop vt p else p)"
    unfolding StopAllPlugins_def
    using fold_lookup[of "StopAllPlugins_body vt"
        "\<lambda>p. if GetState vt p = RUNNING then Stop vt p else p",
        OF stop_body_lookup names(1), of m n] names(2) gp
    by simp
  show "lastError (StopAllPlugins pf vt m) = lastError m"
    using StopAllPlugins_frame[of pf vt m] by simp
  show "(\<forall>h. handle lp = Some h \<longrightarrow> \<not> dlclose_unmaps pf h) \<longrightarrow>
        (\<exists>m'. UnloadPlugin pf vt n m = Inr (True, m') \<and> GetPlugin m' n = None)"
    using e p
    by (cases "handle lp")
       (simp_all add: UnloadPlugin_def Let_def split_beta GetPlugin_def delete_conv'
          UnloadPluginLibrary_def UnregisterEventHandler_def)
  show "\<forall>q. CheckDependencies ExamplePlugin_vtable q \<and>
          GetState ExamplePlugin_vtable q = m_state q \<and>
          Load ExamplePlugin_vtable q = (True, q\<lparr>m_state := LOADED\<rparr>) \<and>
          Initialize ExamplePlugin_vtable q = (True, q\<lparr>m_state := INITIALIZED\<rparr>) \<and>
          Start ExamplePlugin_vtable q = q\<lparr>m_state := RUNNING\<rparr> \<and>
          Stop ExamplePlugin_vtable q = q\<lparr>m_state := LOADED\<rparr> \<and>
          Unload ExamplePlugin_vtable q = q\<lparr>m_state := UNLOADED\<rparr>"
    by (simp add: ExamplePlugin_vtable_def)
qed

text \<open>
  C8, counterexample. Three transitions that the lifecycle table does not list, none of
  them rejected. \<^verbatim>\<open>Initialize\<close> of the running plugin \<open>A\<close>, called by the host through
  \<^verbatim>\<open>GetPlugin\<close>: it returns true and the state changes from \<^verbatim>\<open>RUNNING\<close> to
  \<^verbatim>\<open>INITIALIZED\<close>. \<^verbatim>\<open>StartAllPlugins\<close> with \<open>A\<close> in state \<^verbatim>\<open>LOADED\<close>: it returns with the
  manager as it was and reports nothing. \<^verbatim>\<open>UnloadPlugin\<close> of \<open>A\<close> in state \<^verbatim>\<open>INITIALIZED\<close>,
  its module staying mapped: it returns true and the entry is gone.
\<close>

theorem unlisted_transitions_not_rejected:
  "GetPlugin dispatch_manager ''A'' =
     Some ((plugin_like_example ''A'' [] HIGH)\<lparr>m_state := RUNNING\<rparr>) \<and>
   Initialize ExamplePlugin_vtable ((plugin_like_example ''A'' [] HIGH)\<lparr>m_state := RUNNING\<rparr>) =
     (True, (plugin_like_example ''A'' [] HIGH)\<lparr>m_state := INITIALIZED\<rparr>) \<and>
   plugin_state ExamplePlugin_vtable dispatch_manager ''A'' = Some RUNNING \<and>
   plugin_state ExamplePlugin_vtable
     (host_initialize ExamplePlugin_vtable ''A'' dispatch_manager) ''A'' = Some INITIALIZED \<and>
   plugin_state ExamplePlugin_vtable loaded_manager ''A'' = Some LOADED \<and>
   StartAllPlugins (example_platform dispatch_files) ExamplePlugin_vtable loaded_manager =
     loaded_manager \<and>
   lastError loaded_manager = [] \<and>
   plugin_state ExamplePlugin_vtable initialized_manager ''A'' = Some INITIALIZED \<and>
   (\<exists>m'. UnloadPlugin (keeps_modules_mapped (example_platform dispatch_files))
            ExamplePlugin_vtable ''A'' initialized_manager = Inr (True, m') \<and>
      GetPlugin m' ''A'' = None)"
proof -
  let ?pk = "keeps_modules_mapped (example_platform dispatch_files)"
  let ?E = ExamplePlugin_vtable
  have a: "GetPlugin dispatch_manager ''A'' =
     Some ((plugin_like_example ''A'' [] HIGH)\<lparr>m_state := RUNNING\<rparr>)" by code_simp
  have b: "Initialize ?E ((plugin_like_example ''A'' [] HIGH)\<lparr>m_state := RUNNING\<rparr>) =
     (True, (plugin_like_example ''A'' [] HIGH)\<lparr>m_state := INITIALIZED\<rparr>)"
    by (simp add: ExamplePlugin_vtable_def)
  have c: "plugin_state ?E dispatch_manager ''A'' = Some RUNNING" by code_simp
  have d: "plugin_state ?E (host_initialize ?E ''A'' dispatch_manager) ''A'' = Some INITIALIZED"
    by code_simp
  have e: "plugin_state ?E loaded_manager ''A'' = Some LOADED" by code_simp
  have f: "StartAllPlugins (example_platform dispatch_files) ?E loaded_manager = loaded_manager"
    by code_simp
  have g: "lastError loaded_manager = []" by code_simp
  have h: "plugin_state ?E initialized_manager ''A'' = Some INITIALIZED" by code_simp
  have u: "UnloadPlugin ?pk ?E ''A'' initialized_manager =
      Inr (True, snd (projr (UnloadPlugin ?pk ?E ''A'' initialized_manager)))"
    by code_simp
  have v: "GetPlugin (snd (projr (UnloadPlugin ?pk ?E ''A'' initialized_manager))) ''A'' = None"
    by code_simp
  from u v have i: "\<exists>m'. UnloadPlugin ?pk ?E ''A'' initialized_manager = Inr (True, m') \<and>
      GetPlugin m' ''A'' = None"
    by metis
  from a b c d e f g h i show ?thesis by (intro conjI)
qed

text \<open>C8, witness: the operations on the running plugin \<open>A\<close>, its module staying
  mapped.\<close>

theorem lifecycle_calls_unguarded_witness:
  "visits_each_once (keeps_modules_mapped (example_platform dispatch_files)) \<and>
   distinct (map fst (loadedPlugins dispatch_manager)) \<and>
   map_of (loadedPlugins dispatch_manager) ''A'' =
     Some \<lparr>plugin = Some ((plugin_like_example ''A'' [] HIGH)\<lparr>m_state := RUNNING\<rparr>),
           handle = Some 1, filePath = ''/plugins/A'',
           createFunc = Some (Some (plugin_like_example ''A'' [] HIGH)), destroyFunc = True\<rparr> \<and>
   \<not> dlclose_unmaps (keeps_modules_mapped (example_platform dispatch_files)) 1 \<and>
   GetPlugin (StartAllPlugins (keeps_modules_mapped (example_platform dispatch_files))
       ExamplePlugin_vtable dispatch_manager) ''A'' =
     Some ((plugin_like_example ''A'' [] HIGH)\<lparr>m_state := RUNNING\<rparr>) \<and>
   lastError (StartAllPlugins (keeps_modules_mapped (example_platform dispatch_files))
       ExamplePlugin_vtable dispatch_manager) = lastError dispatch_manager \<and>
   GetPlugin (StopAllPlugins (keeps_modules_mapped (example_platform dispatch_files))
       ExamplePlugin_vtable dispatch_manager) ''A'' =
     Some ((plugin_like_example ''A'' [] HIGH)\<lparr>m_state := LOADED\<rparr>) \<and>
   lastError (StopAllPlugins (keeps_modules_mapped (example_platform dispatch_files))
       ExamplePlugin_vtable dispatch_manager) = lastError dispatch_manager \<and>
   (\<exists>m'. UnloadPlugin (keeps_modules_mapped (example_platform dispatch_files))
            ExamplePlugin_vtable ''A'' dispatch_manager = Inr (True, m') \<and>
      GetPlugin m' ''A'' = None)"
proof -
  let ?pk = "keeps_modules_mapped (example_platform dispatch_files)"
  let ?p = "(plugin_like_example ''A'' [] HIGH)\<lparr>m_state := RUNNING\<rparr>"
  let ?lp = "\<lparr>plugin = Some ?p, handle = Some 1, filePath = ''/plugins/A'',
           createFunc = Some (Some (plugin_like_example ''A'' [] HIGH)), destroyFunc = True\<rparr>"
  have vis: "visits_each_once ?pk"
    by (simp add: visits_each_once_def keeps_modules_mapped_def example_platform_def)
  have d: "distinct (map fst (loadedPlugins dispatch_manager))" by code_simp
  have e: "map_of (loadedPlugins dispatch_manager) ''A'' = Some ?lp" by code_simp
  have p: "plugin ?lp = Some ?p" by simp
  have k: "\<not> dlclose_unmaps ?pk 1" by (simp add: keeps_modules_mapped_def)
  have kk: "\<forall>h. handle ?lp = Some h \<longrightarrow> \<not> dlclose_unmaps ?pk h"
    by (simp add: keeps_modules_mapped_def)
  have v: "GetState ExamplePlugin_vtable ?p = RUNNING"
      "Stop ExamplePlugin_vtable ?p = (plugin_like_example ''A'' [] HIGH)\<lparr>m_state := LOADED\<rparr>"
    by (simp_all add: ExamplePlugin_vtable_def)
  note t = lifecycle_calls_unguarded[of ?pk dispatch_manager "''A''" ?lp ?p ExamplePlugin_vtable,
      OF vis d e p]
  from t v have t1:
    "GetPlugin (StartAllPlugins ?pk ExamplePlugin_vtable dispatch_manager) ''A'' = Some ?p"
    "GetPlugin (StopAllPlugins ?pk ExamplePlugin_vtable dispatch_manager) ''A'' =
       Some ((plugin_like_example ''A'' [] HIGH)\<lparr>m_state := LOADED\<rparr>)"
    by simp_all
  from t have t2:
    "lastError (StartAllPlugins ?pk ExamplePlugin_vtable dispatch_manager)
       = lastError dispatch_manager"
    "lastError (StopAllPlugins ?pk ExamplePlugin_vtable dispatch_manager)
       = lastError dispatch_manager"
    by blast+
  from t kk have t3: "\<exists>m'. UnloadPlugin ?pk ExamplePlugin_vtable ''A'' dispatch_manager
        = Inr (True, m') \<and> GetPlugin m' ''A'' = None"
    by blast
  from vis d e k t1(1) t2(1) t1(2) t2(2) t3 show ?thesis by (intro conjI)
qed

section \<open>The plugin table of the reachable states\<close>

text \<open>What the theorems above assume of the plugin table holds in every reachable
  state.\<close>

lemma set_update_subset: "set (AList.update k v al) \<subseteq> insert (k, v) (set al)"
  by (induction al) auto

lemma set_delete_subset: "set (AList.delete k al) \<subseteq> set al"
  by (auto simp: AList.delete_eq)

lemma entries_ok_update:
  "entries_ok al \<Longrightarrow> plugin lp \<noteq> None \<Longrightarrow> handle lp \<noteq> None \<Longrightarrow> entries_ok (AList.update k lp al)"
  using set_update_subset[of k lp al] by (auto simp: entries_ok_def distinct_update)

lemma entries_ok_delete: "entries_ok al \<Longrightarrow> entries_ok (AList.delete k al)"
  using set_delete_subset[of k al] by (auto simp: entries_ok_def distinct_delete)

lemma entries_ok_lookup:
  "entries_ok al \<Longrightarrow> map_of al k = Some lp \<Longrightarrow> handle lp \<noteq> None"
  by (auto simp: entries_ok_def dest!: map_of_SomeD)

lemma entries_ok_start_body:
  "entries_ok (loadedPlugins m) \<Longrightarrow> entries_ok (loadedPlugins (StartAllPlugins_body vt k m))"
  by (auto simp: StartAllPlugins_body_def split: option.splits
      intro!: entries_ok_update dest: entries_ok_lookup)

lemma entries_ok_stop_body:
  "entries_ok (loadedPlugins m) \<Longrightarrow> entries_ok (loadedPlugins (StopAllPlugins_body vt k m))"
  by (auto simp: StopAllPlugins_body_def split: option.splits
      intro!: entries_ok_update dest: entries_ok_lookup)

lemma reachable_tables:
  assumes "reachable pf vt m"
  shows "entries_ok (loadedPlugins m)"
  using assms
proof (induction rule: reachable.induct)
  case reach_new
  show ?case by (simp add: entries_ok_def new_PluginManager_def)
next
  case (reach_load m path ok m')
  from LoadPlugin_effect[OF reach_load.hyps(2)] reach_load.IH show ?case
    by (auto simp: entries_ok_update)
next
  case (reach_initialize m pluginName ok m')
  from InitializePlugin_returns[OF reach_initialize.hyps(2)] reach_initialize.IH
  show ?case by simp
next
  case (reach_start m)
  then show ?case
    unfolding StartAllPlugins_def
    by (intro fold_invariant[where P = "\<lambda>s. entries_ok (loadedPlugins s)"])
       (auto simp: entries_ok_start_body)
next
  case (reach_stop m)
  then show ?case
    unfolding StopAllPlugins_def
    by (intro fold_invariant[where P = "\<lambda>s. entries_ok (loadedPlugins s)"])
       (auto simp: entries_ok_stop_body)
next
  case (reach_unload m pluginName ok m')
  from UnloadPlugin_effect[OF reach_unload.hyps(2)] reach_unload.IH show ?case
    by (auto simp: entries_ok_delete)
qed

lemma reachable_wellformed:
  assumes "reachable pf vt m"
  shows "distinct (map fst (loadedPlugins m)) \<and> distinct (map fst (eventHandlers m)) \<and>
         instances_present m \<and> (\<forall>(n, lp) \<in> set (loadedPlugins m). handle lp \<noteq> None)"
  using reachable_tables[OF assms] reachable_no_binding[OF assms]
  by (auto simp: entries_ok_def instances_present_def)

text \<open>The example managers are the results of loads that return, and are reachable.\<close>

lemma example_loads_return:
  "load_each (example_platform cyclic_files) ExamplePlugin_vtable
     [''/plugins/A'', ''/plugins/B''] new_PluginManager = Inr cyclic_manager"
  "load_each (example_platform missing_files) ExamplePlugin_vtable
     [''/plugins/A'', ''/plugins/B''] new_PluginManager = Inr missing_manager"
  "load_each (example_platform acyclic_files) ExamplePlugin_vtable
     [''/plugins/A'', ''/plugins/B'', ''/plugins/C'', ''/plugins/D''] new_PluginManager
     = Inr acyclic_manager"
  "load_each (example_platform dispatch_files) ExamplePlugin_vtable
     [''/plugins/A'', ''/plugins/B'', ''/plugins/C''] new_PluginManager = Inr loaded_manager"
  "load_each (keeps_modules_mapped (example_platform dispatch_files)) ExamplePlugin_vtable
     [''/plugins/A'', ''/plugins/B'', ''/plugins/C''] new_PluginManager = Inr loaded_manager"
  by code_simp+

lemma reachable_load_each:
  "reachable pf vt m \<Longrightarrow> load_each pf vt paths m = Inr m' \<Longrightarrow> reachable pf vt m'"
proof (induction paths arbitrary: m)
  case Nil
  then show ?case by simp
next
  case (Cons path paths)
  from Cons.prems(2) obtain ok m1 where
    l: "LoadPlugin pf vt path m = Inr (ok, m1)" and rest: "load_each pf vt paths m1 = Inr m'"
    by (auto split: sum.splits)
  from reach_load[OF Cons.prems(1) l] rest show ?case by (rule Cons.IH)
qed

lemma reachable_examples:
  "reachable (example_platform cyclic_files) ExamplePlugin_vtable cyclic_manager"
  "reachable (example_platform missing_files) ExamplePlugin_vtable missing_manager"
  "reachable (example_platform acyclic_files) ExamplePlugin_vtable acyclic_manager"
  "reachable (example_platform dispatch_files) ExamplePlugin_vtable loaded_manager"
  "reachable (keeps_modules_mapped (example_platform dispatch_files)) ExamplePlugin_vtable
     loaded_manager"
  by (rule reachable_load_each[OF reach_new example_loads_return(1)])
     (rule reachable_load_each[OF reach_new example_loads_return(2)],
      rule reachable_load_each[OF reach_new example_loads_return(3)],
      rule reachable_load_each[OF reach_new example_loads_return(4)],
      rule reachable_load_each[OF reach_new example_loads_return(5)])

end
